theory Spec2Isabelle
  imports Main "HOL-Library.Word"
begin

section \<open>Buffers\<close>

text \<open>
  The oracle server (standalone-vrf-server.js) reads ledger accounts as Node \<open>Buffer\<close>s.
  A buffer is a list of bytes; offsets and the numbers read from a buffer are JavaScript
  numbers, far below the range where they stop being exact, so they are \<open>nat\<close>.
\<close>

type_synonym u8 = "8 word"
type_synonym buffer = "u8 list"
type_synonym pubkey = buffer

text \<open>The failures of \<open>child_process.exec\<close> with a timeout.\<close>

datatype exec_failure = NonZeroExit nat | Timeout | SpawnFailure

text \<open>Everything the server can throw.\<close>

datatype error =
    RangeError
  | ExecError exec_failure
  | ParseError
  | RpcError
  | DeriveError

text \<open>\<open>buf.slice(start, end)\<close>: clipped to the buffer, never throws.\<close>

definition slice_buf :: "buffer \<Rightarrow> nat \<Rightarrow> nat \<Rightarrow> buffer" where
  "slice_buf buf start stop = take (stop - start) (drop start buf)"

text \<open>\<open>buf.readUInt8(offset)\<close> and \<open>buf.readUInt32LE(offset)\<close> throw a RangeError out of range.\<close>

definition readUInt8 :: "buffer \<Rightarrow> nat \<Rightarrow> error + nat" where
  "readUInt8 buf offset =
     (if offset < length buf then Inr (unat (buf ! offset)) else Inl RangeError)"

definition readUInt32LE :: "buffer \<Rightarrow> nat \<Rightarrow> error + nat" where
  "readUInt32LE buf offset =
     (if offset + 4 \<le> length buf
      then Inr (unat (buf ! offset) + 256 * unat (buf ! (offset + 1))
                + 65536 * unat (buf ! (offset + 2)) + 16777216 * unat (buf ! (offset + 3)))
      else Inl RangeError)"

text \<open>\<open>Buffer.alloc(n)\<close> is zero-filled.\<close>

definition alloc :: "nat \<Rightarrow> buffer" where
  "alloc n = replicate n 0"

text \<open>
  \<open>src.copy(target, targetStart)\<close> writes as many bytes of \<open>src\<close> as fit into the target
  from \<open>targetStart\<close> on; the target keeps its length.
\<close>

definition copy :: "buffer \<Rightarrow> buffer \<Rightarrow> nat \<Rightarrow> buffer" where
  "copy src target targetStart =
     (if targetStart \<ge> length target then target
      else let n = min (length src) (length target - targetStart)
           in take targetStart target @ take n src @ drop (targetStart + n) target)"

definition u32le :: "nat \<Rightarrow> buffer" where
  "u32le v = [of_nat (v mod 256), of_nat (v div 256 mod 256),
              of_nat (v div 65536 mod 256), of_nat (v div 16777216 mod 256)]"

text \<open>
  \<open>buf.writeUInt32LE(value, offset)\<close> and \<open>buf.writeUInt8(value, offset)\<close> throw a
  RangeError when the value does not fit or the offset is out of range.
\<close>

definition writeUInt32LE :: "buffer \<Rightarrow> nat \<Rightarrow> nat \<Rightarrow> error + buffer" where
  "writeUInt32LE buf v offset =
     (if v < 2 ^ 32 \<and> offset + 4 \<le> length buf
      then Inr (take offset buf @ u32le v @ drop (offset + 4) buf)
      else Inl RangeError)"

definition writeUInt8 :: "buffer \<Rightarrow> nat \<Rightarrow> nat \<Rightarrow> error + buffer" where
  "writeUInt8 buf v offset =
     (if v < 256 \<and> offset < length buf
      then Inr (take offset buf @ [of_nat v] @ drop (offset + 1) buf)
      else Inl RangeError)"

text \<open>\<open>buf.toString('hex')\<close>: two lower-case digits a byte.\<close>

definition hexChar :: "nat \<Rightarrow> char" where
  "hexChar n = ''0123456789abcdef'' ! n"

definition toHex :: "buffer \<Rightarrow> string" where
  "toHex buf = concat (map (\<lambda>b. [hexChar (unat b div 16), hexChar (unat b mod 16)]) buf)"

text \<open>
  \<open>Buffer.from(str, 'hex')\<close>: decodes pairs of hex digits and stops at the first pair
  that is not one; never throws on a string.
\<close>

definition hexVal :: "char \<Rightarrow> nat option" where
  "hexVal c =
     (let n = of_char c :: nat in
      if 48 \<le> n \<and> n \<le> 57 then Some (n - 48)
      else if 97 \<le> n \<and> n \<le> 102 then Some (n - 87)
      else if 65 \<le> n \<and> n \<le> 70 then Some (n - 55)
      else None)"

fun fromHex :: "string \<Rightarrow> buffer" where
  "fromHex (a # b # rest) =
     (case (hexVal a, hexVal b) of
        (Some x, Some y) \<Rightarrow> of_nat (16 * x + y) # fromHex rest
      | _ \<Rightarrow> [])"
| "fromHex _ = []"

text \<open>Sequencing of steps that may throw.\<close>

definition bindE :: "error + 'a \<Rightarrow> ('a \<Rightarrow> error + 'b) \<Rightarrow> error + 'b" where
  "bindE r f = (case r of Inl e \<Rightarrow> Inl e | Inr x \<Rightarrow> f x)"

section \<open>The request account\<close>

text \<open>
  The discriminator of a RandomnessRequest account, as the hex string the server compares
  with, and as bytes.
\<close>

definition REQUEST_DISCRIMINATOR_HEX :: string where
  "REQUEST_DISCRIMINATOR_HEX = ''f4e7e4a0941c11b8''"

definition REQUEST_DISCRIMINATOR :: buffer where
  "REQUEST_DISCRIMINATOR = [0xf4, 0xe7, 0xe4, 0xa0, 0x94, 0x1c, 0x11, 0xb8]"

text \<open>
  The try block of \<open>isRequestPending\<close> (lines 455-500): the status byte sits after the
  discriminator, three 32-byte fields, the length-prefixed callback data and the 8-byte
  request slot. RequestStatus: Pending = 0, Fulfilled = 1, Cancelled = 2, Expired = 3.
\<close>

definition parseRequestStatus :: "buffer \<Rightarrow> error + bool" where
  "parseRequestStatus data =
     (let discriminatorHex = toHex (slice_buf data 0 8) in
      if discriminatorHex \<noteq> REQUEST_DISCRIMINATOR_HEX then Inr False
      else
        let offset = 8 + 32 + 32 + 32 in
        if length data \<le> offset + 4 then Inr False
        else
          bindE (readUInt32LE data offset) (\<lambda>callbackDataLength.
            let offset = offset + (4 + callbackDataLength) + 8 in
            if length data \<le> offset then Inr False
            else
              bindE (readUInt8 data offset) (\<lambda>status.
                if status \<noteq> 0 then Inr False else Inr True)))"

text \<open>
  The fields \<open>processRequestAccount\<close> reads from the account data (lines 545-585), after
  its own checks of the length and the discriminator.
\<close>

record parsed_request =
  rq_subscription :: buffer
  rq_seed :: buffer
  rq_requester :: buffer
  rq_poolId :: nat
  rq_requestIndex :: nat
  rq_requestId :: buffer

definition parseRequestData :: "buffer \<Rightarrow> error + parsed_request" where
  "parseRequestData data =
     (let offset = 8;
          subscription = slice_buf data offset (offset + 32);
          offset = offset + 32;
          seed = slice_buf data offset (offset + 32);
          offset = offset + 32;
          requester = slice_buf data offset (offset + 32);
          offset = offset + 32
      in
      bindE (readUInt32LE data offset) (\<lambda>callbackDataLength.
        let offset = offset + (4 + callbackDataLength);
            offset = offset + 8;
            offset = offset + 1;
            offset = offset + 4;
            offset = offset + 8
        in
        bindE (readUInt8 data offset) (\<lambda>poolId.
          let offset = offset + 1 in
          bindE (readUInt32LE data offset) (\<lambda>requestIndex.
            let offset = offset + 4;
                requestId = slice_buf data offset (offset + 32)
            in Inr \<lparr> rq_subscription = subscription, rq_seed = seed,
                     rq_requester = requester, rq_poolId = poolId,
                     rq_requestIndex = requestIndex, rq_requestId = requestId \<rparr>))))"

section \<open>Configuration, collaborators and state\<close>

text \<open>
  What the server holds after \<open>initialize\<close>: the polling interval of \<open>CONFIG\<close>
  (\<open>parseInt(process.env.POLLING_INTERVAL) || 3000\<close>), the path of the proof tool, the VRF
  key pair (hex strings), the program id, the oracle's public key and the id of the
  system program.
\<close>

record config =
  POLLING_INTERVAL :: int
  cliPath :: string
  vrfSecretKey :: string
  vrfPublicKey :: string
  vrfProgramId :: pubkey
  oraclePublicKey :: pubkey
  systemProgramId :: pubkey

record proof_result =
  vrf_proof :: string
  vrf_output :: string

text \<open>An account as \<open>getProgramAccounts\<close> returns it: \<open>account.pubkey\<close>, \<open>account.account.data\<close>.\<close>

record program_account =
  acct_pubkey :: pubkey
  acct_data :: buffer

record account_meta =
  pubkey :: pubkey
  isSigner :: bool
  isWritable :: bool

record instruction =
  keys :: "account_meta list"
  programId :: pubkey
  instruction_data :: buffer

record transaction =
  tx_instruction :: instruction
  recentBlockhash :: string
  feePayer :: pubkey

text \<open>
  The world outside the process. Each interaction with it (a reading of the clock, a run
  of the proof tool, a call of the ledger's RPC) consumes one tick of the state, and the
  tick indexes the answer, so that two calls with the same arguments may differ.
  \<open>parseProveOutput\<close> stands for the line parsing of the tool's output in
  \<open>generateProof\<close>, \<open>findProgramAddress\<close> and \<open>serialize\<close> for the library's functions;
  these three are pure. The readings of the clock that are only logged are left out.
\<close>

record env =
  dateNow :: "nat \<Rightarrow> int"
  execAsync :: "nat \<Rightarrow> string \<Rightarrow> exec_failure + string \<times> string"
  parseProveOutput :: "string \<Rightarrow> proof_result option"
  getProgramAccounts :: "nat \<Rightarrow> error + program_account list"
  getLatestBlockhash :: "nat \<Rightarrow> error + string"
  serialize :: "transaction \<Rightarrow> error + buffer"
  sendRawTransaction :: "nat \<Rightarrow> buffer \<Rightarrow> error + string"
  confirmTransaction :: "nat \<Rightarrow> string \<Rightarrow> error + string option"
  findProgramAddress :: "buffer list \<Rightarrow> pubkey \<Rightarrow> error + pubkey"

text \<open>The value of \<open>processedRequests\<close> for an address.\<close>

record processed_info =
  timestamp :: int
  info_proof :: string
  info_output :: string
  info_seed :: string
  info_requestId :: string
  info_poolId :: nat
  info_requestIndex :: nat

record stats =
  startTime :: int
  requestsProcessed :: nat
  requestsFulfilled :: nat
  errors :: nat

text \<open>
  The server's fields, and what it has done to the world: the ticks consumed, the
  transactions handed to \<open>sendRawTransaction\<close> and the sleeps, oldest first.
\<close>

record state =
  processedRequests :: "pubkey \<rightharpoonup> processed_info"
  isRunning :: bool
  stats :: stats
  ticks :: nat
  sent :: "transaction list"
  sleeps :: "int list"

definition tick :: "state \<Rightarrow> state" where
  "tick s = s\<lparr>ticks := Suc (ticks s)\<rparr>"

definition sleep :: "int \<Rightarrow> state \<Rightarrow> state" where
  "sleep ms s = s\<lparr>sleeps := sleeps s @ [ms]\<rparr>"

definition countError :: "state \<Rightarrow> state" where
  "countError s = s\<lparr>stats := (stats s)\<lparr>errors := Suc (errors (stats s))\<rparr>\<rparr>"

section \<open>MangekyouCLIInterface\<close>

definition generateProof :: "config \<Rightarrow> env \<Rightarrow> nat \<Rightarrow> buffer \<Rightarrow> error + proof_result" where
  "generateProof cfg env k input =
     (let inputHex = toHex input in
      case execAsync env k (cliPath cfg @ '' prove --input '' @ inputHex
                            @ '' --secret-key '' @ vrfSecretKey cfg) of
        Inl f \<Rightarrow> Inl (ExecError f)
      | Inr std \<Rightarrow>
          (case parseProveOutput env (fst std) of
             None \<Rightarrow> Inl ParseError
           | Some r \<Rightarrow> Inr r))"

definition verifyProof ::
  "config \<Rightarrow> env \<Rightarrow> nat \<Rightarrow> string \<Rightarrow> string \<Rightarrow> string \<Rightarrow> buffer \<Rightarrow> error + bool" where
  "verifyProof cfg env k prf out publicKey input =
     (let inputHex = toHex input in
      case execAsync env k (cliPath cfg @ '' verify --proof '' @ prf @ '' --output '' @ out
                            @ '' --public-key '' @ publicKey @ '' --input '' @ inputHex) of
        Inr std \<Rightarrow> Inr True
      | Inl f \<Rightarrow> Inr False)"

section \<open>StandaloneVRFServer: scanning\<close>

text \<open>
  \<open>isRequestPending\<close>: an address processed less than ten minutes ago is skipped; an older
  entry is deleted and the account is checked again. An error of the try block is caught
  and gives false.
\<close>

definition isRequestPending :: "env \<Rightarrow> state \<Rightarrow> program_account \<Rightarrow> bool \<times> state" where
  "isRequestPending env s account =
     (let pubkeyStr = acct_pubkey account;
          pending = (case parseRequestStatus (acct_data account) of
                       Inl e \<Rightarrow> False
                     | Inr b \<Rightarrow> b)
      in
      case processedRequests s pubkeyStr of
        Some processedInfo \<Rightarrow>
          if dateNow env (ticks s) - timestamp processedInfo < 10 * 60 * 1000
          then (False, tick s)
          else (pending, (tick s)\<lparr>processedRequests := (processedRequests s)(pubkeyStr := None)\<rparr>)
      | None \<Rightarrow> (pending, s))"

text \<open>
  The loop of \<open>getPendingRequestAccounts\<close> over the program's accounts (lines 400-432),
  with the pending accounts in the order of the enumeration. Nothing in its body throws:
  \<open>isRequestPending\<close> catches its own errors.
\<close>

fun scanAccounts :: "env \<Rightarrow> state \<Rightarrow> program_account list \<Rightarrow> program_account list \<times> state" where
  "scanAccounts env s [] = ([], s)"
| "scanAccounts env s (account # rest) =
     (let data = acct_data account in
      if length data < 32 then scanAccounts env s rest
      else if toHex (slice_buf data 0 8) = REQUEST_DISCRIMINATOR_HEX then
        (case isRequestPending env s account of
           (pending, s') \<Rightarrow>
             (case scanAccounts env s' rest of
                (pendingRequests, s'') \<Rightarrow>
                  (if pending then account # pendingRequests else pendingRequests, s'')))
      else scanAccounts env s rest)"

definition getPendingRequestAccounts ::
  "env \<Rightarrow> state \<Rightarrow> (error + program_account list) \<times> state" where
  "getPendingRequestAccounts env s =
     (case getProgramAccounts env (ticks s) of
        Inl e \<Rightarrow> (Inl e, tick s)
      | Inr accounts \<Rightarrow>
          (case scanAccounts env (tick s) accounts of
             (pendingRequests, s') \<Rightarrow> (Inr pendingRequests, s')))"

section \<open>StandaloneVRFServer: fulfillment\<close>

definition FULFILL_DISCRIMINATOR :: buffer where
  "FULFILL_DISCRIMINATOR = [235, 105, 140, 46, 40, 88, 117, 2]"

text \<open>\<open>Buffer.from(str)\<close> of an ASCII string.\<close>

definition utf8 :: "string \<Rightarrow> buffer" where
  "utf8 str = map (\<lambda>c. of_nat (of_char c)) str"

text \<open>The instruction data of \<open>createFulfillmentInstruction\<close> (lines 750-780).\<close>

definition encodeFulfillData ::
  "buffer \<Rightarrow> buffer \<Rightarrow> buffer \<Rightarrow> nat \<Rightarrow> nat \<Rightarrow> error + buffer" where
  "encodeFulfillData proofBuffer publicKeyBuffer requestId poolId requestIndex =
     (let fulfillTotalSize =
            8 + 4 + length proofBuffer + 4 + length publicKeyBuffer + 32 + 1 + 4;
          fulfillData = alloc fulfillTotalSize;
          fulfillOffset = 0;
          fulfillData = copy FULFILL_DISCRIMINATOR fulfillData fulfillOffset;
          fulfillOffset = fulfillOffset + 8
      in
      bindE (writeUInt32LE fulfillData (length proofBuffer) fulfillOffset) (\<lambda>fulfillData.
        let fulfillOffset = fulfillOffset + 4;
            fulfillData = copy proofBuffer fulfillData fulfillOffset;
            fulfillOffset = fulfillOffset + length proofBuffer
        in
        bindE (writeUInt32LE fulfillData (length publicKeyBuffer) fulfillOffset) (\<lambda>fulfillData.
          let fulfillOffset = fulfillOffset + 4;
              fulfillData = copy publicKeyBuffer fulfillData fulfillOffset;
              fulfillOffset = fulfillOffset + length publicKeyBuffer;
              fulfillData = copy requestId fulfillData fulfillOffset;
              fulfillOffset = fulfillOffset + 32
          in
          bindE (writeUInt8 fulfillData poolId fulfillOffset) (\<lambda>fulfillData.
            let fulfillOffset = fulfillOffset + 1 in
            writeUInt32LE fulfillData requestIndex fulfillOffset))))"

text \<open>
  An address is its 32 bytes: \<open>toString\<close> and \<open>new PublicKey\<close> of a base58 string or of 32
  bytes are inverse to each other and are left out.
\<close>

definition createFulfillmentInstruction ::
  "config \<Rightarrow> env \<Rightarrow> pubkey \<Rightarrow> proof_result \<Rightarrow> buffer \<Rightarrow> buffer \<Rightarrow> nat \<Rightarrow> nat \<Rightarrow> pubkey
   \<Rightarrow> error + instruction" where
  "createFulfillmentInstruction cfg env requestAccountPubkey proofResult seed requestId
       poolId requestIndex subscriptionPDAStr =
     (let requestAccount = requestAccountPubkey;
          proofBuffer = fromHex (vrf_proof proofResult);
          publicKeyBuffer = fromHex (vrfPublicKey cfg);
          subscriptionPDA = subscriptionPDAStr
      in
      bindE (findProgramAddress env
               [utf8 ''request_pool'', subscriptionPDA, [of_nat poolId]] (vrfProgramId cfg))
        (\<lambda>requestPoolPDA.
      bindE (findProgramAddress env [utf8 ''vrf_result'', requestAccount] (vrfProgramId cfg))
        (\<lambda>vrfResultPDA.
      bindE (encodeFulfillData proofBuffer publicKeyBuffer requestId poolId requestIndex)
        (\<lambda>fulfillData.
      Inr \<lparr> keys =
              [\<lparr> pubkey = oraclePublicKey cfg, isSigner = True, isWritable = True \<rparr>,
               \<lparr> pubkey = requestAccount, isSigner = False, isWritable = True \<rparr>,
               \<lparr> pubkey = vrfResultPDA, isSigner = False, isWritable = True \<rparr>,
               \<lparr> pubkey = requestPoolPDA, isSigner = False, isWritable = True \<rparr>,
               \<lparr> pubkey = subscriptionPDA, isSigner = False, isWritable = True \<rparr>,
               \<lparr> pubkey = systemProgramId cfg, isSigner = False, isWritable = False \<rparr>],
            programId = vrfProgramId cfg,
            instruction_data = fulfillData \<rparr>))))"

text \<open>\<open>{ success: true, signature }\<close> or \<open>{ success: false, error }\<close>.\<close>

datatype fulfillment_result = Success string | Failure

text \<open>
  \<open>submitFulfillment\<close> catches every error and returns a failure. The transaction is
  logged in \<open>sent\<close> when \<open>sendRawTransaction\<close> is called.
\<close>

definition submitFulfillment ::
  "config \<Rightarrow> env \<Rightarrow> state \<Rightarrow> pubkey \<Rightarrow> proof_result \<Rightarrow> buffer \<Rightarrow> buffer \<Rightarrow> nat \<Rightarrow> nat \<Rightarrow> pubkey
   \<Rightarrow> fulfillment_result \<times> state" where
  "submitFulfillment cfg env s requestAccountPubkey proofResult seed requestId poolId
       requestIndex subscriptionPDAStr =
     (case createFulfillmentInstruction cfg env requestAccountPubkey proofResult seed
             requestId poolId requestIndex subscriptionPDAStr of
        Inl e \<Rightarrow> (Failure, s)
      | Inr ix \<Rightarrow>
          (case getLatestBlockhash env (ticks s) of
             Inl e \<Rightarrow> (Failure, tick s)
           | Inr blockhash \<Rightarrow>
               (let s1 = tick s;
                    tx = \<lparr> tx_instruction = ix, recentBlockhash = blockhash,
                           feePayer = oraclePublicKey cfg \<rparr>
                in
                case serialize env tx of
                  Inl e \<Rightarrow> (Failure, s1)
                | Inr raw \<Rightarrow>
                    (let s2 = (tick s1)\<lparr>sent := sent s1 @ [tx]\<rparr> in
                     case sendRawTransaction env (ticks s1) raw of
                       Inl e \<Rightarrow> (Failure, s2)
                     | Inr signature \<Rightarrow>
                         (case getLatestBlockhash env (ticks s2) of
                            Inl e \<Rightarrow> (Failure, tick s2)
                          | Inr latest \<Rightarrow>
                              (let s3 = tick s2 in
                               case confirmTransaction env (ticks s3) signature of
                                 Inl e \<Rightarrow> (Failure, tick s3)
                               | Inr (Some err) \<Rightarrow> (Failure, tick s3)
                               | Inr None \<Rightarrow> (Success signature, tick s3)))))))"

text \<open>
  The statements of \<open>processRequestAccount\<close> that mark the request as processed (lines
  613-624) and that count a fulfillment (line 641).
\<close>

definition processedInfo :: "int \<Rightarrow> proof_result \<Rightarrow> parsed_request \<Rightarrow> processed_info" where
  "processedInfo now proofResult rq =
     \<lparr> timestamp = now,
       info_proof = vrf_proof proofResult,
       info_output = vrf_output proofResult,
       info_seed = toHex (rq_seed rq),
       info_requestId = toHex (rq_requestId rq),
       info_poolId = rq_poolId rq,
       info_requestIndex = rq_requestIndex rq \<rparr>"

definition markProcessed ::
  "env \<Rightarrow> state \<Rightarrow> pubkey \<Rightarrow> proof_result \<Rightarrow> parsed_request \<Rightarrow> state" where
  "markProcessed env s pubkeyStr proofResult rq =
     (tick s)
       \<lparr> processedRequests := (processedRequests s)(pubkeyStr \<mapsto>
            processedInfo (dateNow env (ticks s)) proofResult rq),
         stats := (stats s)\<lparr> requestsProcessed := Suc (requestsProcessed (stats s)) \<rparr> \<rparr>"

definition countFulfilled :: "state \<Rightarrow> state" where
  "countFulfilled s =
     s\<lparr> stats := (stats s)\<lparr> requestsFulfilled := Suc (requestsFulfilled (stats s)) \<rparr> \<rparr>"

text \<open>
  \<open>processRequestAccount\<close>: the entry of \<open>processedRequests\<close> is written once the proof is
  verified, before the submission. Errors of the parsing and of \<open>generateProof\<close> are
  thrown again by the catch block; a proof that does not verify and a failed submission
  return false.
\<close>

definition processRequestAccount ::
  "config \<Rightarrow> env \<Rightarrow> state \<Rightarrow> program_account \<Rightarrow> (error + bool) \<times> state" where
  "processRequestAccount cfg env s account =
     (let pubkeyStr = acct_pubkey account;
          data = acct_data account
      in
      if processedRequests s pubkeyStr \<noteq> None then (Inr False, s)
      else if length data < 8 then (Inr False, s)
      else if toHex (slice_buf data 0 8) \<noteq> REQUEST_DISCRIMINATOR_HEX then (Inr False, s)
      else
        case parseRequestData data of
          Inl e \<Rightarrow> (Inl e, s)
        | Inr rq \<Rightarrow>
            (case generateProof cfg env (ticks s) (rq_seed rq) of
               Inl e \<Rightarrow> (Inl e, tick s)
             | Inr proofResult \<Rightarrow>
                 (let s1 = tick s in
                  case verifyProof cfg env (ticks s1) (vrf_proof proofResult)
                         (vrf_output proofResult) (vrfPublicKey cfg) (rq_seed rq) of
                    Inl e \<Rightarrow> (Inl e, tick s1)
                  | Inr isValid \<Rightarrow>
                      (let s2 = tick s1 in
                       if \<not> isValid then (Inr False, s2)
                       else
                         let s3 = markProcessed env s2 pubkeyStr proofResult rq in
                         case submitFulfillment cfg env s3 pubkeyStr proofResult (rq_seed rq)
                                (rq_requestId rq) (rq_poolId rq) (rq_requestIndex rq)
                                (rq_subscription rq) of
                           (Success signature, s4) \<Rightarrow> (Inr True, countFulfilled s4)
                         | (Failure, s4) \<Rightarrow> (Inr False, s4)))))"

section \<open>StandaloneVRFServer: the polling loop\<close>

text \<open>
  The loop of \<open>monitorAndProcess\<close> over the pending accounts (lines 361-372), returning
  \<open>processedCount\<close>: an error of one account is counted and the loop goes on.
\<close>

fun processAccounts ::
  "config \<Rightarrow> env \<Rightarrow> state \<Rightarrow> program_account list \<Rightarrow> nat \<times> state" where
  "processAccounts cfg env s [] = (0, s)"
| "processAccounts cfg env s (account # rest) =
     (case processRequestAccount cfg env s account of
        (Inr True, s') \<Rightarrow>
          (case processAccounts cfg env (sleep 1000 s') rest of
             (processedCount, s'') \<Rightarrow> (Suc processedCount, s''))
      | (Inr False, s') \<Rightarrow> processAccounts cfg env s' rest
      | (Inl e, s') \<Rightarrow> processAccounts cfg env (countError s') rest)"

text \<open>\<open>monitorAndProcess\<close> throws again what the scan throws.\<close>

definition monitorAndProcess :: "config \<Rightarrow> env \<Rightarrow> state \<Rightarrow> (error + unit) \<times> state" where
  "monitorAndProcess cfg env s =
     (case getPendingRequestAccounts env s of
        (Inl e, s') \<Rightarrow> (Inl e, s')
      | (Inr accounts, s') \<Rightarrow>
          if length accounts = 0 then (Inr (), s')
          else (case processAccounts cfg env s' accounts of
                  (processedCount, s'') \<Rightarrow> (Inr (), s'')))"

text \<open>One turn of the loop of \<open>start\<close> (lines 334-341).\<close>

definition loopBody :: "config \<Rightarrow> env \<Rightarrow> state \<Rightarrow> state" where
  "loopBody cfg env s =
     (case monitorAndProcess cfg env s of
        (Inr u, s') \<Rightarrow> sleep (POLLING_INTERVAL cfg) s'
      | (Inl e, s') \<Rightarrow> sleep 5000 (countError s'))"

text \<open>
  The loop \<open>while (this.isRunning)\<close> runs until a signal handler clears the flag and
  exits the process, so it has no result of its own: \<open>mainLoop n\<close> is the state after at
  most \<open>n\<close> turns, and \<open>start n\<close> sets the flag and the start time first.
\<close>

fun mainLoop :: "nat \<Rightarrow> config \<Rightarrow> env \<Rightarrow> state \<Rightarrow> state" where
  "mainLoop 0 cfg env s = s"
| "mainLoop (Suc n) cfg env s =
     (if isRunning s then mainLoop n cfg env (loopBody cfg env s) else s)"

definition start :: "nat \<Rightarrow> config \<Rightarrow> env \<Rightarrow> state \<Rightarrow> state" where
  "start n cfg env s =
     mainLoop n cfg env
       ((tick s)\<lparr> isRunning := True,
                  stats := (stats s)\<lparr>startTime := dateNow env (ticks s)\<rparr> \<rparr>)"

section \<open>Observing the submissions\<close>

text \<open>
  The number of transactions handed to \<open>sendRawTransaction\<close> so far that name the
  address as the request account, the second of the instruction's accounts.
\<close>

definition submissionsFor :: "pubkey \<Rightarrow> state \<Rightarrow> nat" where
  "submissionsFor address s =
     length (filter (\<lambda>tx. pubkey (keys (tx_instruction tx) ! 1) = address) (sent s))"

section \<open>Sample inputs\<close>

text \<open>
  A configuration with the default polling interval, a request account with empty
  callback data and status Pending (166 bytes), a fresh server state, and a world in
  which every call succeeds.
\<close>

definition sampleConfig :: config where
  "sampleConfig =
     \<lparr> POLLING_INTERVAL = 3000, cliPath = ''ecvrf-cli'', vrfSecretKey = ''5e'',
       vrfPublicKey = ''0b0c'', vrfProgramId = replicate 32 6,
       oraclePublicKey = replicate 32 4, systemProgramId = replicate 32 0 \<rparr>"

definition sampleData :: buffer where
  "sampleData =
     REQUEST_DISCRIMINATOR @ replicate 32 1 @ replicate 32 2 @ replicate 32 3
     @ [0, 0, 0, 0] @ replicate 8 0 @ [0] @ [1, 0, 0, 0] @ replicate 8 0
     @ [7] @ [5, 1, 0, 0] @ replicate 32 9"

definition sampleAccount :: program_account where
  "sampleAccount = \<lparr> acct_pubkey = replicate 32 5, acct_data = sampleData \<rparr>"

definition freshState :: state where
  "freshState =
     \<lparr> processedRequests = Map.empty, isRunning = True,
       stats = \<lparr> startTime = 0, requestsProcessed = 0, requestsFulfilled = 0, errors = 0 \<rparr>,
       ticks = 0, sent = [], sleeps = [] \<rparr>"

definition sampleProof :: proof_result where
  "sampleProof = \<lparr> vrf_proof = ''0102'', vrf_output = ''ff'' \<rparr>"

definition goodEnv :: env where
  "goodEnv =
     \<lparr> dateNow = (\<lambda>k. 1000 + int k),
       execAsync = (\<lambda>k cmd. Inr (''Proof: 0102 Output: ff'', [])),
       parseProveOutput = (\<lambda>out. Some sampleProof),
       getProgramAccounts = (\<lambda>k. Inr [sampleAccount]),
       getLatestBlockhash = (\<lambda>k. Inr ''blockhash''),
       serialize = (\<lambda>tx. Inr (instruction_data (tx_instruction tx))),
       sendRawTransaction = (\<lambda>k raw. Inr ''signature''),
       confirmTransaction = (\<lambda>k signature. Inr None),
       findProgramAddress = (\<lambda>seeds program. Inr (concat seeds)) \<rparr>"

text \<open>An entry of \<open>processedRequests\<close> for the sample account, written at time 1002.\<close>

definition sampleInfo :: processed_info where
  "sampleInfo =
     \<lparr> timestamp = 1002, info_proof = ''0102'', info_output = ''ff'',
       info_seed = toHex (replicate 32 2), info_requestId = toHex (replicate 32 9),
       info_poolId = 7, info_requestIndex = 261 \<rparr>"

definition processedState :: state where
  "processedState = freshState\<lparr> processedRequests := [replicate 32 5 \<mapsto> sampleInfo] \<rparr>"

text \<open>
  A record of 166 bytes, the size of a request with no callback data, that declares 40
  bytes of callback data: the status is then read at offset 156, and the pool id, the
  request index and the request id would lie at offsets 169 to 205.
\<close>

definition truncatedData :: buffer where
  "truncatedData = REQUEST_DISCRIMINATOR @ replicate 96 1 @ [40, 0, 0, 0] @ replicate 58 0"

text \<open>
  The request read from the sample account, and the transaction the server builds for it
  in the world where every call succeeds.
\<close>

definition sampleRequest :: parsed_request where
  "sampleRequest =
     \<lparr> rq_subscription = replicate 32 1, rq_seed = replicate 32 2,
       rq_requester = replicate 32 3, rq_poolId = 7, rq_requestIndex = 261,
       rq_requestId = replicate 32 9 \<rparr>"

definition sampleInstruction :: instruction where
  "sampleInstruction =
     \<lparr> keys =
         [\<lparr> pubkey = replicate 32 4, isSigner = True, isWritable = True \<rparr>,
          \<lparr> pubkey = replicate 32 5, isSigner = False, isWritable = True \<rparr>,
          \<lparr> pubkey = utf8 ''vrf_result'' @ replicate 32 5, isSigner = False, isWritable = True \<rparr>,
          \<lparr> pubkey = utf8 ''request_pool'' @ replicate 32 1 @ [7],
            isSigner = False, isWritable = True \<rparr>,
          \<lparr> pubkey = replicate 32 1, isSigner = False, isWritable = True \<rparr>,
          \<lparr> pubkey = replicate 32 0, isSigner = False, isWritable = False \<rparr>],
       programId = replicate 32 6,
       instruction_data =
         [235, 105, 140, 46, 40, 88, 117, 2] @ [2, 0, 0, 0] @ [1, 2] @ [2, 0, 0, 0] @ [11, 12]
         @ replicate 32 9 @ [7] @ [5, 1, 0, 0] \<rparr>"

definition sampleTransaction :: transaction where
  "sampleTransaction =
     \<lparr> tx_instruction = sampleInstruction, recentBlockhash = ''blockhash'',
       feePayer = replicate 32 4 \<rparr>"

text \<open>The state after the sample account has been processed and fulfilled.\<close>

definition sampleDone :: state where
  "sampleDone =
     \<lparr> processedRequests = [replicate 32 5 \<mapsto> sampleInfo], isRunning = True,
       stats = \<lparr> startTime = 0, requestsProcessed = 1, requestsFulfilled = 1, errors = 0 \<rparr>,
       ticks = 7, sent = [sampleTransaction], sleeps = [] \<rparr>"

text \<open>
  Worlds in which one thing fails: the verifier exits with a non-zero code (at tick 2,
  where a cycle from the fresh state verifies), the ledger rejects the transaction, the
  enumeration of the accounts fails; and a configuration with a polling interval of ten
  seconds (\<open>POLLING_INTERVAL=10000\<close> in the environment).
\<close>

definition invalidProofEnv :: env where
  "invalidProofEnv =
     goodEnv\<lparr> execAsync := \<lambda>k cmd. if k = 2 then Inl (NonZeroExit 1)
                                    else Inr (''Proof: 0102 Output: ff'', []) \<rparr>"

definition submissionFailsEnv :: env where
  "submissionFailsEnv = goodEnv\<lparr> sendRawTransaction := \<lambda>k raw. Inl RpcError \<rparr>"

definition rpcDownEnv :: env where
  "rpcDownEnv = goodEnv\<lparr> getProgramAccounts := \<lambda>k. Inl RpcError \<rparr>"

definition slowConfig :: config where
  "slowConfig = sampleConfig\<lparr> POLLING_INTERVAL := 10000 \<rparr>"

text \<open>The state after the sample account has been processed and its submission has failed.\<close>

definition failedState :: state where
  "failedState =
     \<lparr> processedRequests = [replicate 32 5 \<mapsto> sampleInfo], isRunning = True,
       stats = \<lparr> startTime = 0, requestsProcessed = 1, requestsFulfilled = 0, errors = 0 \<rparr>,
       ticks = 5, sent = [sampleTransaction], sleeps = [] \<rparr>"

section \<open>Hex strings and the discriminator\<close>

lemma hexVal_hexChar_upto: "\<forall>i \<in> set [0..<16]. hexVal (hexChar i) = Some i"
  by (simp add: upt_rec [of _ "numeral _"] upt_rec [of 0] hexVal_def hexChar_def)

lemma hexVal_hexChar: "i < 16 \<Longrightarrow> hexVal (hexChar i) = Some i"
  using hexVal_hexChar_upto by (simp del: upt.simps)

lemma fromHex_toHex: "fromHex (toHex (buf :: buffer)) = buf"
proof (induction buf)
  case Nil
  then show ?case by (simp add: toHex_def)
next
  case (Cons b bs)
  have lt: "unat b < 256" using unsigned_less [of b, where ?'a = nat] by simp
  then have d: "unat b div 16 < 16" and m: "unat b mod 16 < 16" by auto
  have "(of_nat (16 * (unat b div 16) + unat b mod 16) :: u8) = b"
    by simp
  with Cons d m show ?case
    by (simp add: toHex_def hexVal_hexChar)
qed

lemma toHex_disc: "toHex REQUEST_DISCRIMINATOR = REQUEST_DISCRIMINATOR_HEX"
  by (simp add: toHex_def REQUEST_DISCRIMINATOR_def REQUEST_DISCRIMINATOR_HEX_def hexChar_def)

lemma fromHex_disc: "fromHex REQUEST_DISCRIMINATOR_HEX = REQUEST_DISCRIMINATOR"
  by (simp add: REQUEST_DISCRIMINATOR_def REQUEST_DISCRIMINATOR_HEX_def hexVal_def)

text \<open>Comparing the hex strings compares the bytes.\<close>

lemma discriminator_check:
  "toHex buf = REQUEST_DISCRIMINATOR_HEX \<longleftrightarrow> buf = REQUEST_DISCRIMINATOR"
  using fromHex_toHex [of buf] fromHex_disc toHex_disc by auto

section \<open>Verification of a proof never throws\<close>

text \<open>
  C10. For every proof, output, public key and input, \<open>verifyProof\<close> returns a boolean and
  never an error; whenever the run of the verifier fails, be it a non-zero exit, a timeout
  or a failure to spawn, the result is false, as for an invalid proof.
\<close>

theorem verifyProof_total:
  "(\<forall>e. verifyProof cfg env k prf out publicKey input \<noteq> Inl e) \<and>
   (\<forall>f. execAsync env k (cliPath cfg @ '' verify --proof '' @ prf @ '' --output '' @ out
                           @ '' --public-key '' @ publicKey @ '' --input '' @ toHex input) = Inl f
      \<longrightarrow> verifyProof cfg env k prf out publicKey input = Inr False)"
  by (auto simp: verifyProof_def split: sum.splits)

theorem verifyProof_total_witness:
  "execAsync (goodEnv\<lparr>execAsync := \<lambda>k cmd. Inl Timeout\<rparr>) 0
     (cliPath sampleConfig @ '' verify --proof '' @ ''0102'' @ '' --output '' @ ''ff''
      @ '' --public-key '' @ ''0b0c'' @ '' --input '' @ toHex [1, 2]) = Inl Timeout \<and>
   verifyProof sampleConfig (goodEnv\<lparr>execAsync := \<lambda>k cmd. Inl Timeout\<rparr>) 0
     ''0102'' ''ff'' ''0b0c'' [1, 2] = Inr False"
proof -
  have failed: "execAsync (goodEnv\<lparr>execAsync := \<lambda>k cmd. Inl Timeout\<rparr>) 0
     (cliPath sampleConfig @ '' verify --proof '' @ ''0102'' @ '' --output '' @ ''ff''
      @ '' --public-key '' @ ''0b0c'' @ '' --input '' @ toHex [1, 2]) = Inl Timeout"
    by simp
  with verifyProof_total [of sampleConfig "goodEnv\<lparr>execAsync := \<lambda>k cmd. Inl Timeout\<rparr>" 0
      "''0102''" "''ff''" "''0b0c''" "[1, 2]"]
  show ?thesis by blast
qed

section \<open>Decoding a request account\<close>

lemma parseRequestStatus_tagged:
  assumes "slice_buf data 0 8 = REQUEST_DISCRIMINATOR"
    and "readUInt32LE data 104 = Inr n"
  shows "parseRequestStatus data = Inr (116 + n < length data \<and> data ! (116 + n) = 0)"
  using assms
  by (auto simp: parseRequestStatus_def discriminator_check bindE_def readUInt8_def
      readUInt32LE_def Let_def unat_eq_0 split: if_splits)

lemma parseRequestStatus_no_error: "parseRequestStatus data \<noteq> Inl e"
  by (auto simp: parseRequestStatus_def bindE_def readUInt8_def readUInt32LE_def Let_def
      split: if_splits sum.splits)

lemma parseRequestStatus_short:
  "length data \<le> 108 \<Longrightarrow> parseRequestStatus data = Inr False"
  by (simp add: parseRequestStatus_def Let_def)

lemma parseRequestStatus_untagged:
  "slice_buf data 0 8 \<noteq> REQUEST_DISCRIMINATOR \<Longrightarrow> parseRequestStatus data = Inr False"
  by (simp add: parseRequestStatus_def Let_def discriminator_check)

lemma parseRequestData_tagged:
  assumes "readUInt32LE data 104 = Inr n"
    and "134 + n \<le> length data"
  shows "parseRequestData data =
     Inr \<lparr> rq_subscription = slice_buf data 8 40, rq_seed = slice_buf data 40 72,
           rq_requester = slice_buf data 72 104, rq_poolId = unat (data ! (129 + n)),
           rq_requestIndex = unat (data ! (130 + n)) + 256 * unat (data ! (131 + n))
              + 65536 * unat (data ! (132 + n)) + 16777216 * unat (data ! (133 + n)),
           rq_requestId = slice_buf data (134 + n) (166 + n) \<rparr>"
  using assms
  by (simp add: parseRequestData_def bindE_def readUInt8_def Let_def readUInt32LE_def
      add.commute add.left_commute)

lemmas sample_simps =
  sampleData_def REQUEST_DISCRIMINATOR_def REQUEST_DISCRIMINATOR_HEX_def bindE_def
  readUInt8_def readUInt32LE_def Let_def slice_buf_def toHex_def hexChar_def nth_append

lemma sample_tag: "slice_buf sampleData 0 8 = REQUEST_DISCRIMINATOR"
  by (simp add: sample_simps)

lemma sample_callback: "readUInt32LE sampleData 104 = Inr 0"
  by (simp add: sample_simps)

lemma sample_length: "length sampleData = 166"
  by (simp add: sample_simps)

lemma sample_status: "parseRequestStatus sampleData = Inr True"
  by (simp add: parseRequestStatus_def sample_simps)

lemma sample_request:
  "parseRequestData sampleData =
     Inr \<lparr> rq_subscription = replicate 32 1, rq_seed = replicate 32 2,
           rq_requester = replicate 32 3, rq_poolId = 7, rq_requestIndex = 261,
           rq_requestId = replicate 32 9 \<rparr>"
  by (simp add: parseRequestData_def sample_simps)

lemma isRequestPending_fresh:
  "processedRequests s (acct_pubkey account) = None \<Longrightarrow>
     isRequestPending env s account = (parseRequestStatus (acct_data account) = Inr True, s)"
  using parseRequestStatus_no_error [of "acct_data account"]
  by (auto simp: isRequestPending_def split: sum.splits)

lemma isRequestPending_True:
  "fst (isRequestPending env s account) \<Longrightarrow> parseRequestStatus (acct_data account) = Inr True"
  by (auto simp: isRequestPending_def Let_def split: option.splits sum.splits if_splits)

lemma scanAccounts_single:
  "processedRequests s (acct_pubkey account) = None \<Longrightarrow>
     scanAccounts env s [account] =
       (if parseRequestStatus (acct_data account) = Inr True then [account] else [], s)"
proof -
  assume fresh: "processedRequests s (acct_pubkey account) = None"
  have short: "length (acct_data account) < 32 \<Longrightarrow> parseRequestStatus (acct_data account) = Inr False"
    by (simp add: parseRequestStatus_short)
  have untagged: "toHex (slice_buf (acct_data account) 0 8) \<noteq> REQUEST_DISCRIMINATOR_HEX \<Longrightarrow>
      parseRequestStatus (acct_data account) = Inr False"
    by (simp add: parseRequestStatus_untagged discriminator_check)
  show ?thesis
    using short untagged by (auto simp: isRequestPending_fresh [OF fresh] Let_def)
qed

lemma scanAccounts_pending:
  "a \<in> set (fst (scanAccounts env s accounts)) \<Longrightarrow> parseRequestStatus (acct_data a) = Inr True"
proof (induction accounts arbitrary: s)
  case Nil
  then show ?case by simp
next
  case (Cons account rest)
  show ?case
  proof (cases "length (acct_data account) < 32
                \<or> toHex (slice_buf (acct_data account) 0 8) \<noteq> REQUEST_DISCRIMINATOR_HEX")
    case True
    with Cons show ?thesis by (auto simp: Let_def split: if_splits)
  next
    case False
    obtain pending s' where p: "isRequestPending env s account = (pending, s')"
      by (cases "isRequestPending env s account")
    obtain ps s'' where r: "scanAccounts env s' rest = (ps, s'')"
      by (cases "scanAccounts env s' rest")
    from Cons.prems False p r have "a \<in> set ps \<or> (pending \<and> a = account)"
      by (auto simp: Let_def split: if_splits)
    then show ?thesis
    proof
      assume "a \<in> set ps"
      with Cons.IH [of s'] r show ?thesis by simp
    next
      assume "pending \<and> a = account"
      with isRequestPending_True [of env s account] p show ?thesis by simp
    qed
  qed
qed

lemma scanAccounts_Cons:
  "scanAccounts env s (account # rest) =
     (let first = scanAccounts env s [account];
          others = scanAccounts env (snd first) rest
      in (fst first @ fst others, snd others))"
  by (auto simp: Let_def split: prod.splits)

text \<open>
  C5. For a record whose first 8 bytes are the request discriminator and whose callback
  data length, the little-endian u32 at offset 104, is \<open>callbackDataLen\<close>: the scanner
  returns the account as pending exactly when the byte at offset
  \<open>8+32+32+32 + 4 + callbackDataLen + 8\<close> is in the buffer and is 0; and the pipeline reads
  the pool id (1 byte), the request index (u32, little-endian) and the request id (32
  bytes) at the offsets after the status (1), numWords (4) and callbackGasLimit (8).
\<close>

theorem request_layout:
  assumes "slice_buf data 0 8 = REQUEST_DISCRIMINATOR"
    and "readUInt32LE data 104 = Inr callbackDataLen"
    and "processedRequests s address = None"
  shows "(fst (scanAccounts env s [\<lparr> acct_pubkey = address, acct_data = data \<rparr>])
            = [\<lparr> acct_pubkey = address, acct_data = data \<rparr>]
          \<longleftrightarrow> 8 + 32 + 32 + 32 + 4 + callbackDataLen + 8 < length data
              \<and> data ! (8 + 32 + 32 + 32 + 4 + callbackDataLen + 8) = 0) \<and>
         (fst (scanAccounts env s [\<lparr> acct_pubkey = address, acct_data = data \<rparr>])
            \<noteq> [\<lparr> acct_pubkey = address, acct_data = data \<rparr>]
          \<longrightarrow> fst (scanAccounts env s [\<lparr> acct_pubkey = address, acct_data = data \<rparr>]) = []) \<and>
         (8 + 32 + 32 + 32 + 4 + callbackDataLen + 8 + 1 + 4 + 8 + 1 + 4 \<le> length data \<longrightarrow>
           (\<exists>rq. parseRequestData data = Inr rq \<and>
              rq_poolId rq = unat (data ! (8 + 32 + 32 + 32 + 4 + callbackDataLen + 8 + 1 + 4 + 8)) \<and>
              readUInt32LE data (8 + 32 + 32 + 32 + 4 + callbackDataLen + 8 + 1 + 4 + 8 + 1)
                = Inr (rq_requestIndex rq) \<and>
              rq_requestId rq = slice_buf data (8 + 32 + 32 + 32 + 4 + callbackDataLen + 8 + 1 + 4 + 8 + 1 + 4)
                                  (8 + 32 + 32 + 32 + 4 + callbackDataLen + 8 + 1 + 4 + 8 + 1 + 4 + 32)))"
proof -
  let ?account = "\<lparr> acct_pubkey = address, acct_data = data \<rparr>"
  have fresh: "processedRequests s (acct_pubkey ?account) = None"
    using assms(3) by simp
  have status: "parseRequestStatus data = Inr (116 + callbackDataLen < length data
      \<and> data ! (116 + callbackDataLen) = 0)"
    using parseRequestStatus_tagged [OF assms(1) assms(2)] .
  have scan: "fst (scanAccounts env s [?account])
      = (if 116 + callbackDataLen < length data \<and> data ! (116 + callbackDataLen) = 0
         then [?account] else [])"
    using scanAccounts_single [OF fresh, of env] status by simp
  have fields: "134 + callbackDataLen \<le> length data \<Longrightarrow>
      parseRequestData data =
        Inr \<lparr> rq_subscription = slice_buf data 8 40, rq_seed = slice_buf data 40 72,
              rq_requester = slice_buf data 72 104,
              rq_poolId = unat (data ! (129 + callbackDataLen)),
              rq_requestIndex = unat (data ! (130 + callbackDataLen))
                + 256 * unat (data ! (131 + callbackDataLen))
                + 65536 * unat (data ! (132 + callbackDataLen))
                + 16777216 * unat (data ! (133 + callbackDataLen)),
              rq_requestId = slice_buf data (134 + callbackDataLen) (166 + callbackDataLen) \<rparr>"
    using parseRequestData_tagged [OF assms(2)] by simp
  have a: "8 + 32 + 32 + 32 + 4 + callbackDataLen + 8 = 116 + callbackDataLen" by simp
  show ?thesis
    unfolding a using scan fields
    by (simp add: readUInt32LE_def add.commute add.left_commute)
qed

theorem request_layout_witness:
  "fst (scanAccounts goodEnv freshState [sampleAccount]) = [sampleAccount] \<and>
   sampleData ! 116 = 0 \<and>
   (\<exists>rq. parseRequestData sampleData = Inr rq \<and> rq_poolId rq = unat (sampleData ! 129) \<and>
      readUInt32LE sampleData 130 = Inr (rq_requestIndex rq) \<and>
      rq_requestId rq = slice_buf sampleData 134 166)"
proof -
  have fresh: "processedRequests freshState (replicate 32 5) = None"
    by (simp add: freshState_def)
  have long: "8 + 32 + 32 + 32 + 4 + 0 + 8 + 1 + 4 + 8 + 1 + 4 \<le> length sampleData"
    by (simp add: sample_length)
  have zero: "sampleData ! 116 = 0"
    by (simp add: sample_simps)
  from request_layout [OF sample_tag sample_callback fresh, of goodEnv] long zero
  show ?thesis
    by (simp add: sampleAccount_def sample_length)
qed

section \<open>The ten-minute window\<close>

text \<open>
  C4. For an account whose data says Pending, \<open>isRequestPending\<close> at time
  \<open>now = dateNow env (ticks s)\<close> returns false exactly when \<open>processedRequests\<close> has an entry
  for the address with \<open>now - timestamp < 10 * 60 * 1000\<close>; an entry that is at least ten
  minutes old is deleted from the map and the account is pending again; in every other
  case the map is left as it is.
\<close>

theorem isRequestPending_window:
  assumes "parseRequestStatus (acct_data account) = Inr True"
  shows "(fst (isRequestPending env s account) = False \<longleftrightarrow>
            (\<exists>r. processedRequests s (acct_pubkey account) = Some r \<and>
                 dateNow env (ticks s) - timestamp r < 10 * 60 * 1000)) \<and>
         (\<forall>r. processedRequests s (acct_pubkey account) = Some r \<and>
               10 * 60 * 1000 \<le> dateNow env (ticks s) - timestamp r \<longrightarrow>
               fst (isRequestPending env s account) = True \<and>
               processedRequests (snd (isRequestPending env s account))
                 = (processedRequests s)(acct_pubkey account := None)) \<and>
         (\<forall>r. processedRequests s (acct_pubkey account) = Some r \<and>
               dateNow env (ticks s) - timestamp r < 10 * 60 * 1000 \<longrightarrow>
               processedRequests (snd (isRequestPending env s account)) = processedRequests s) \<and>
         (processedRequests s (acct_pubkey account) = None \<longrightarrow>
               processedRequests (snd (isRequestPending env s account)) = processedRequests s)"
  using assms
  by (auto simp: isRequestPending_def tick_def Let_def split: option.splits if_splits)

theorem isRequestPending_window_witness:
  "parseRequestStatus (acct_data sampleAccount) = Inr True \<and>
   fst (isRequestPending goodEnv processedState sampleAccount) = False \<and>
   fst (isRequestPending (goodEnv\<lparr>dateNow := \<lambda>k. 601002\<rparr>) processedState sampleAccount) = True \<and>
   processedRequests
     (snd (isRequestPending (goodEnv\<lparr>dateNow := \<lambda>k. 601002\<rparr>) processedState sampleAccount))
     = Map.empty"
proof -
  have pending: "parseRequestStatus (acct_data sampleAccount) = Inr True"
    by (simp add: sampleAccount_def sample_status)
  have entry: "processedRequests processedState (acct_pubkey sampleAccount) = Some sampleInfo"
    by (simp add: processedState_def sampleAccount_def)
  have recent: "dateNow goodEnv (ticks processedState) - timestamp sampleInfo < 10 * 60 * 1000"
    by (simp add: goodEnv_def processedState_def freshState_def sampleInfo_def)
  have stale: "10 * 60 * 1000 \<le> dateNow (goodEnv\<lparr>dateNow := \<lambda>k. 601002\<rparr>) (ticks processedState)
      - timestamp sampleInfo"
    by (simp add: sampleInfo_def)
  have gone: "(processedRequests processedState)(acct_pubkey sampleAccount := None) = Map.empty"
    by (simp add: processedState_def sampleAccount_def freshState_def)
  from isRequestPending_window [OF pending, of goodEnv processedState] entry recent
  have first: "fst (isRequestPending goodEnv processedState sampleAccount) = False"
    by blast
  from isRequestPending_window [OF pending, of "goodEnv\<lparr>dateNow := \<lambda>k. 601002\<rparr>" processedState]
    entry stale gone
  have second: "fst (isRequestPending (goodEnv\<lparr>dateNow := \<lambda>k. 601002\<rparr>) processedState sampleAccount) = True
    \<and> processedRequests
        (snd (isRequestPending (goodEnv\<lparr>dateNow := \<lambda>k. 601002\<rparr>) processedState sampleAccount))
      = Map.empty"
    by metis
  from pending first second show ?thesis by blast
qed

section \<open>Malformed records\<close>

lemma malformed_status:
  assumes "length data < 104 \<or> slice_buf data 0 8 \<noteq> REQUEST_DISCRIMINATOR
           \<or> (\<exists>n. readUInt32LE data 104 = Inr n \<and> length data \<le> 8 + 32 + 32 + 32 + 4 + n + 8)"
  shows "parseRequestStatus data = Inr False"
proof (cases "slice_buf data 0 8 = REQUEST_DISCRIMINATOR")
  case False
  then show ?thesis by (rule parseRequestStatus_untagged)
next
  case True
  from assms True consider "length data < 104"
    | n where "readUInt32LE data 104 = Inr n" "length data \<le> 116 + n"
    by auto
  then show ?thesis
  proof cases
    case 1
    then show ?thesis by (simp add: parseRequestStatus_short)
  next
    case 2
    with parseRequestStatus_tagged [OF True, of n] show ?thesis by simp
  qed
qed

lemma scanAccounts_skip:
  assumes "parseRequestStatus (acct_data a) = Inr False"
  shows "fst (scanAccounts env s [a]) = []"
proof -
  have "\<not> fst (isRequestPending env s a)"
    using isRequestPending_True [of env s a] assms by auto
  then show ?thesis
    by (auto simp: Let_def split: prod.splits)
qed

text \<open>
  C6, as stated, fails: the record \<open>truncatedData\<close> declares a callback data length that
  puts the pool id, the request index and the request id past the end of the buffer, and
  the scan returns it as pending, since only the status byte has to be in the buffer.
  Reading its fields then throws.
\<close>

theorem truncated_record_pending:
  "readUInt32LE truncatedData 104 = Inr 40 \<and> length truncatedData = 166 \<and>
   fst (scanAccounts goodEnv freshState
          [\<lparr> acct_pubkey = replicate 32 5, acct_data = truncatedData \<rparr>])
     = [\<lparr> acct_pubkey = replicate 32 5, acct_data = truncatedData \<rparr>] \<and>
   parseRequestData truncatedData = Inl RangeError"
proof -
  have tag: "slice_buf truncatedData 0 8 = REQUEST_DISCRIMINATOR"
    by (simp add: truncatedData_def REQUEST_DISCRIMINATOR_def slice_buf_def)
  have len: "readUInt32LE truncatedData 104 = Inr 40"
    by (simp add: truncatedData_def REQUEST_DISCRIMINATOR_def readUInt32LE_def nth_append)
  have size: "length truncatedData = 166"
    by (simp add: truncatedData_def REQUEST_DISCRIMINATOR_def)
  have byte: "truncatedData ! 156 = 0"
    by (simp add: truncatedData_def REQUEST_DISCRIMINATOR_def nth_append)
  have status: "parseRequestStatus truncatedData = Inr True"
    using parseRequestStatus_tagged [OF tag len] size byte by simp
  have fresh: "processedRequests freshState
      (acct_pubkey \<lparr> acct_pubkey = replicate 32 5, acct_data = truncatedData \<rparr>) = None"
    by (simp add: freshState_def)
  have scan: "fst (scanAccounts goodEnv freshState
          [\<lparr> acct_pubkey = replicate 32 5, acct_data = truncatedData \<rparr>])
     = [\<lparr> acct_pubkey = replicate 32 5, acct_data = truncatedData \<rparr>]"
    using scanAccounts_single [OF fresh, of goodEnv] status by simp
  have fields: "parseRequestData truncatedData = Inl RangeError"
    using len size
    by (simp add: parseRequestData_def bindE_def readUInt8_def Let_def)
  from len size scan fields show ?thesis by blast
qed

text \<open>
  C6, amended. A record that is shorter than the fixed prefix of 104 bytes, or whose
  first 8 bytes are not the request discriminator, or whose declared callback data
  length puts the status byte at or past the end of the buffer, is never among the
  accounts a scan returns; the scan of a list goes on after it with the remaining
  accounts, and \<open>getPendingRequestAccounts\<close> returns a list, not an error, whenever the
  enumeration of the program's accounts does.
\<close>

theorem malformed_record_skipped:
  assumes "length (acct_data a) < 104 \<or> slice_buf (acct_data a) 0 8 \<noteq> REQUEST_DISCRIMINATOR
           \<or> (\<exists>n. readUInt32LE (acct_data a) 104 = Inr n
                  \<and> length (acct_data a) \<le> 8 + 32 + 32 + 32 + 4 + n + 8)"
  shows "a \<notin> set (fst (scanAccounts env s accounts)) \<and>
         scanAccounts env s (a # rest) = scanAccounts env (snd (scanAccounts env s [a])) rest \<and>
         (getProgramAccounts env (ticks s) = Inr accounts \<longrightarrow>
            (\<exists>pendingRequests. fst (getPendingRequestAccounts env s) = Inr pendingRequests
               \<and> a \<notin> set pendingRequests))"
proof -
  have status: "parseRequestStatus (acct_data a) = Inr False"
    using malformed_status [OF assms] .
  have never: "a \<notin> set (fst (scanAccounts env t accounts))" for t
    using scanAccounts_pending [of a env t accounts] status by auto
  have skip: "fst (scanAccounts env s [a]) = []"
    using scanAccounts_skip [OF status] .
  have goes_on: "scanAccounts env s (a # rest)
      = scanAccounts env (snd (scanAccounts env s [a])) rest"
    using scanAccounts_Cons [of env s a rest] skip by (simp add: Let_def)
  have total: "getProgramAccounts env (ticks s) = Inr accounts \<Longrightarrow>
      fst (getPendingRequestAccounts env s) = Inr (fst (scanAccounts env (tick s) accounts))"
    by (simp add: getPendingRequestAccounts_def split: prod.splits)
  from never [of s] never [of "tick s"] goes_on total show ?thesis by auto
qed

theorem malformed_record_skipped_witness:
  "length (acct_data \<lparr> acct_pubkey = replicate 32 8, acct_data = replicate 20 0 \<rparr>) < 104 \<and>
   getProgramAccounts
     (goodEnv\<lparr> getProgramAccounts :=
        \<lambda>k. Inr [\<lparr> acct_pubkey = replicate 32 8, acct_data = replicate 20 0 \<rparr>, sampleAccount] \<rparr>)
     (ticks freshState)
     = Inr [\<lparr> acct_pubkey = replicate 32 8, acct_data = replicate 20 0 \<rparr>, sampleAccount] \<and>
   (\<exists>pendingRequests.
      fst (getPendingRequestAccounts
        (goodEnv\<lparr> getProgramAccounts :=
           \<lambda>k. Inr [\<lparr> acct_pubkey = replicate 32 8, acct_data = replicate 20 0 \<rparr>, sampleAccount] \<rparr>)
        freshState) = Inr pendingRequests \<and>
      \<lparr> acct_pubkey = replicate 32 8, acct_data = replicate 20 0 \<rparr> \<notin> set pendingRequests)"
proof -
  let ?short = "\<lparr> acct_pubkey = replicate 32 8, acct_data = replicate 20 0 \<rparr>"
  let ?env = "goodEnv\<lparr> getProgramAccounts := \<lambda>k. Inr [?short, sampleAccount] \<rparr>"
  have short: "length (acct_data ?short) < 104"
    by simp
  have listed: "getProgramAccounts ?env (ticks freshState) = Inr [?short, sampleAccount]"
    by simp
  from malformed_record_skipped [of ?short ?env freshState "[?short, sampleAccount]" "[]"]
    short listed
  show ?thesis by blast
qed

section \<open>Encoding the fulfillment\<close>

lemma length_u32le: "length (u32le v) = 4"
  by (simp add: u32le_def)

lemma unat_byte: "unat (of_nat (x mod 256) :: u8) = x mod 256"
  by (simp add: unat_of_nat)

lemma base256:
  "v = a + 256 * (b + 256 * (c + 256 * d)) \<Longrightarrow>
     a + 256 * b + 65536 * c + 16777216 * d = (v :: nat)"
  by simp

lemma u32_digits:
  assumes "v < 4294967296"
  shows "v mod 256 + 256 * (v div 256 mod 256) + 65536 * (v div 65536 mod 256)
        + 16777216 * (v div 16777216 mod 256) = (v :: nat)"
proof -
  have q2: "v div 65536 = v div 256 div 256"
    by (simp add: div_mult2_eq [symmetric])
  have q3: "v div 16777216 = v div 256 div 256 div 256"
    by (simp add: div_mult2_eq [symmetric])
  have top: "v div 256 div 256 div 256 mod 256 = v div 256 div 256 div 256"
    using assms by (simp add: div_mult2_eq [symmetric] less_mult_imp_div_less)
  have "v = v mod 256 + 256 * (v div 256)"
    by simp
  also have "v div 256 = v div 256 mod 256 + 256 * (v div 256 div 256)"
    by simp
  also have "v div 256 div 256 = v div 256 div 256 mod 256 + 256 * (v div 256 div 256 div 256)"
    by simp
  finally have "v = v mod 256 + 256 * (v div 256 mod 256 + 256 * (v div 256 div 256 mod 256
      + 256 * (v div 256 div 256 div 256)))" .
  then show ?thesis
    unfolding q2 q3 top by (rule base256)
qed

lemma u32le_nth:
  "u32le v ! 0 = of_nat (v mod 256) \<and> u32le v ! 1 = of_nat (v div 256 mod 256) \<and>
   u32le v ! 2 = of_nat (v div 65536 mod 256) \<and> u32le v ! 3 = of_nat (v div 16777216 mod 256)"
  by (simp add: u32le_def)

lemma u32le_read:
  assumes "v < 2 ^ 32" and "off = length pre"
  shows "readUInt32LE (pre @ u32le v @ rest) off = Inr v"
proof -
  have small: "v < 4294967296"
    using assms(1) by simp
  have n: "(pre @ u32le v @ rest) ! (length pre + k) = u32le v ! k" if "k < 4" for k
    using that by (simp add: nth_append length_u32le)
  have "(pre @ u32le v @ rest) ! off = u32le v ! 0"
    using n [of 0] assms(2) by simp
  moreover have "(pre @ u32le v @ rest) ! (off + 1) = u32le v ! 1"
    using n [of 1] assms(2) by simp
  moreover have "(pre @ u32le v @ rest) ! (off + 2) = u32le v ! 2"
    using n [of 2] assms(2) by simp
  moreover have "(pre @ u32le v @ rest) ! (off + 3) = u32le v ! 3"
    using n [of 3] assms(2) by simp
  moreover have "off + 4 \<le> length (pre @ u32le v @ rest)"
    using assms(2) by (simp add: length_u32le)
  ultimately show ?thesis
    using u32_digits [OF small]
    by (simp only: readUInt32LE_def u32le_nth unat_byte if_True)
qed

lemma length_FULFILL: "length FULFILL_DISCRIMINATOR = 8"
  by (simp add: FULFILL_DISCRIMINATOR_def)

text \<open>Writing at the end of the part of a zero-filled buffer that is already written.\<close>

lemma copy_at:
  assumes "off = length pre" and "length src \<le> n"
  shows "copy src (pre @ replicate n 0) off = (pre @ src) @ replicate (n - length src) 0"
proof (cases "n = 0")
  case True
  with assms show ?thesis by (simp add: copy_def)
next
  case False
  with assms show ?thesis by (simp add: copy_def min_def)
qed

lemma writeUInt32LE_at:
  assumes "off = length pre" and "4 \<le> n" and "v < 2 ^ 32"
  shows "writeUInt32LE (pre @ replicate n 0) v off = Inr ((pre @ u32le v) @ replicate (n - 4) 0)"
  using assms by (simp add: writeUInt32LE_def)

lemma writeUInt8_at:
  assumes "off = length pre" and "1 \<le> n" and "v < 256"
  shows "writeUInt8 (pre @ replicate n 0) v off = Inr ((pre @ [of_nat v]) @ replicate (n - 1) 0)"
  using assms by (simp add: writeUInt8_def)

lemma encodeFulfillData_bytes:
  assumes "length P < 2 ^ 32" and "length K < 2 ^ 32" and "length R = 32"
    and "poolId < 256" and "requestIndex < 2 ^ 32"
  shows "encodeFulfillData P K R poolId requestIndex =
    Inr (FULFILL_DISCRIMINATOR @ u32le (length P) @ P @ u32le (length K) @ K @ R
         @ [of_nat poolId] @ u32le requestIndex)"
proof -
  let ?D = FULFILL_DISCRIMINATOR
  let ?b1 = "?D"
  let ?b2 = "?b1 @ u32le (length P)"
  let ?b3 = "?b2 @ P"
  let ?b4 = "?b3 @ u32le (length K)"
  let ?b5 = "?b4 @ K"
  let ?b6 = "?b5 @ R"
  let ?b7 = "?b6 @ [of_nat poolId]"
  let ?b8 = "?b7 @ u32le requestIndex"
  have s1: "copy ?D (alloc (8 + 4 + length P + 4 + length K + 32 + 1 + 4)) 0
      = ?b1 @ replicate (4 + length P + 4 + length K + 32 + 1 + 4) 0"
    using copy_at [of 0 "[]" ?D "8 + 4 + length P + 4 + length K + 32 + 1 + 4"]
    by (simp add: alloc_def length_FULFILL)
  have s2: "writeUInt32LE (?b1 @ replicate (4 + length P + 4 + length K + 32 + 1 + 4) 0)
        (length P) (0 + 8)
      = Inr (?b2 @ replicate (length P + 4 + length K + 32 + 1 + 4) 0)"
    using writeUInt32LE_at [of "0 + 8" ?b1 "4 + length P + 4 + length K + 32 + 1 + 4" "length P"]
      assms(1) by (simp add: length_FULFILL)
  have s3: "copy P (?b2 @ replicate (length P + 4 + length K + 32 + 1 + 4) 0) (0 + 8 + 4)
      = ?b3 @ replicate (4 + length K + 32 + 1 + 4) 0"
    using copy_at [of "0 + 8 + 4" ?b2 P "length P + 4 + length K + 32 + 1 + 4"]
    by (simp add: length_FULFILL length_u32le)
  have s4: "writeUInt32LE (?b3 @ replicate (4 + length K + 32 + 1 + 4) 0)
        (length K) (0 + 8 + 4 + length P)
      = Inr (?b4 @ replicate (length K + 32 + 1 + 4) 0)"
    using writeUInt32LE_at [of "0 + 8 + 4 + length P" ?b3 "4 + length K + 32 + 1 + 4" "length K"]
      assms(2) by (simp add: length_FULFILL length_u32le)
  have s5: "copy K (?b4 @ replicate (length K + 32 + 1 + 4) 0) (0 + 8 + 4 + length P + 4)
      = ?b5 @ replicate (32 + 1 + 4) 0"
    using copy_at [of "0 + 8 + 4 + length P + 4" ?b4 K "length K + 32 + 1 + 4"]
    by (simp add: length_FULFILL length_u32le)
  have s6: "copy R (?b5 @ replicate (32 + 1 + 4) 0) (0 + 8 + 4 + length P + 4 + length K)
      = ?b6 @ replicate (1 + 4) 0"
    using copy_at [of "0 + 8 + 4 + length P + 4 + length K" ?b5 R "32 + 1 + 4"] assms(3)
    by (simp add: length_FULFILL length_u32le)
  have s7: "writeUInt8 (?b6 @ replicate (1 + 4) 0) poolId
        (0 + 8 + 4 + length P + 4 + length K + 32)
      = Inr (?b7 @ replicate 4 0)"
    using writeUInt8_at [of "0 + 8 + 4 + length P + 4 + length K + 32" ?b6 "1 + 4" poolId]
      assms(3) assms(4) by (simp add: length_FULFILL length_u32le)
  have s8: "writeUInt32LE (?b7 @ replicate 4 0) requestIndex
        (0 + 8 + 4 + length P + 4 + length K + 32 + 1)
      = Inr ?b8"
    using writeUInt32LE_at [of "0 + 8 + 4 + length P + 4 + length K + 32 + 1" ?b7 4 requestIndex]
      assms(3) assms(5) by (simp add: length_FULFILL length_u32le)
  have "encodeFulfillData P K R poolId requestIndex = Inr ?b8"
    by (simp only: encodeFulfillData_def Let_def bindE_def s1 s2 s3 s4 s5 s6 s7 s8 sum.case)
  then show ?thesis by simp
qed

text \<open>
  C7. For proof and public key buffers whose lengths fit a u32, a request id of 32
  bytes, a pool id that is a byte and a request index that is a u32, the instruction
  data has exactly \<open>8 + 4 + len(proof) + 4 + len(publicKey) + 32 + 1 + 4\<close> bytes and is, with
  nothing between the fields: the discriminator, the length of the proof as a
  little-endian u32, the proof, the length of the public key as a little-endian u32, the
  public key, the request id, the pool id and the request index as a little-endian u32.
\<close>

theorem fulfillData_layout:
  assumes "length proofBuffer < 2 ^ 32" and "length publicKeyBuffer < 2 ^ 32"
    and "length requestId = 32" and "poolId < 256" and "requestIndex < 2 ^ 32"
  shows "\<exists>fulfillData.
     encodeFulfillData proofBuffer publicKeyBuffer requestId poolId requestIndex = Inr fulfillData \<and>
     length fulfillData = 8 + 4 + length proofBuffer + 4 + length publicKeyBuffer + 32 + 1 + 4 \<and>
     fulfillData = [235, 105, 140, 46, 40, 88, 117, 2] @ u32le (length proofBuffer) @ proofBuffer
        @ u32le (length publicKeyBuffer) @ publicKeyBuffer @ requestId
        @ [of_nat poolId] @ u32le requestIndex \<and>
     readUInt32LE fulfillData 8 = Inr (length proofBuffer) \<and>
     readUInt32LE fulfillData (8 + 4 + length proofBuffer) = Inr (length publicKeyBuffer) \<and>
     readUInt32LE fulfillData (8 + 4 + length proofBuffer + 4 + length publicKeyBuffer + 32 + 1)
       = Inr requestIndex"
proof -
  let ?D = FULFILL_DISCRIMINATOR
  let ?out = "?D @ u32le (length proofBuffer) @ proofBuffer @ u32le (length publicKeyBuffer)
      @ publicKeyBuffer @ requestId @ [of_nat poolId] @ u32le requestIndex"
  have enc: "encodeFulfillData proofBuffer publicKeyBuffer requestId poolId requestIndex = Inr ?out"
    using encodeFulfillData_bytes [OF assms] .
  have size: "length ?out = 8 + 4 + length proofBuffer + 4 + length publicKeyBuffer + 32 + 1 + 4"
    using assms(3) by (simp add: length_FULFILL length_u32le)
  have r1: "readUInt32LE ?out 8 = Inr (length proofBuffer)"
    using u32le_read [OF assms(1), of 8 ?D] by (simp add: length_FULFILL)
  have r2: "readUInt32LE ?out (8 + 4 + length proofBuffer) = Inr (length publicKeyBuffer)"
    using u32le_read [OF assms(2), of "8 + 4 + length proofBuffer"
        "?D @ u32le (length proofBuffer) @ proofBuffer"]
    by (simp add: length_FULFILL length_u32le)
  have r3: "readUInt32LE ?out (8 + 4 + length proofBuffer + 4 + length publicKeyBuffer + 32 + 1)
      = Inr requestIndex"
    using u32le_read [OF assms(5),
        of "8 + 4 + length proofBuffer + 4 + length publicKeyBuffer + 32 + 1"
        "?D @ u32le (length proofBuffer) @ proofBuffer @ u32le (length publicKeyBuffer)
            @ publicKeyBuffer @ requestId @ [of_nat poolId]" "[]"] assms(3)
    by (simp add: length_FULFILL length_u32le)
  have disc: "?D = [235, 105, 140, 46, 40, 88, 117, 2]"
    by (simp add: FULFILL_DISCRIMINATOR_def)
  from enc size r1 r2 r3 show ?thesis
    unfolding disc by blast
qed

theorem fulfillData_layout_witness:
  "encodeFulfillData [1, 2] [11, 12] (replicate 32 9) 7 261
     = Inr ([235, 105, 140, 46, 40, 88, 117, 2] @ [2, 0, 0, 0] @ [1, 2] @ [2, 0, 0, 0] @ [11, 12]
            @ replicate 32 9 @ [7] @ [5, 1, 0, 0]) \<and>
   length ([235, 105, 140, 46, 40, 88, 117, 2] @ [2, 0, 0, 0] @ [1, 2] @ [2, 0, 0, 0] @ [11, 12]
            @ replicate 32 9 @ [7] @ [5, 1, 0, 0] :: buffer) = 8 + 4 + 2 + 4 + 2 + 32 + 1 + 4"
proof -
  have h1: "length ([1, 2] :: buffer) < 2 ^ 32" by simp
  have h2: "length ([11, 12] :: buffer) < 2 ^ 32" by simp
  have h3: "length (replicate 32 9 :: buffer) = 32" by simp
  have h4: "(7 :: nat) < 256" by simp
  have h5: "(261 :: nat) < 2 ^ 32" by simp
  have two: "u32le (Suc (Suc 0)) = [2, 0, 0, 0]" by (simp add: u32le_def)
  have idx: "u32le 261 = [5, 1, 0, 0]" by (simp add: u32le_def)
  from fulfillData_layout [OF h1 h2 h3 h4 h5] show ?thesis
    by (simp add: two idx)
qed

section \<open>The fulfillment instruction and its submission\<close>

lemma createFulfillmentInstruction_keys:
  assumes "createFulfillmentInstruction cfg env req pr sd rid pool idx sub = Inr ix"
  shows "\<exists>requestPoolPDA vrfResultPDA.
     findProgramAddress env [utf8 ''request_pool'', sub, [of_nat pool]] (vrfProgramId cfg)
       = Inr requestPoolPDA \<and>
     findProgramAddress env [utf8 ''vrf_result'', req] (vrfProgramId cfg) = Inr vrfResultPDA \<and>
     keys ix =
       [\<lparr> pubkey = oraclePublicKey cfg, isSigner = True, isWritable = True \<rparr>,
        \<lparr> pubkey = req, isSigner = False, isWritable = True \<rparr>,
        \<lparr> pubkey = vrfResultPDA, isSigner = False, isWritable = True \<rparr>,
        \<lparr> pubkey = requestPoolPDA, isSigner = False, isWritable = True \<rparr>,
        \<lparr> pubkey = sub, isSigner = False, isWritable = True \<rparr>,
        \<lparr> pubkey = systemProgramId cfg, isSigner = False, isWritable = False \<rparr>]"
  using assms
  by (auto simp: createFulfillmentInstruction_def bindE_def Let_def split: sum.splits)

lemma createFulfillmentInstruction_request:
  assumes "createFulfillmentInstruction cfg env req pr sd rid pool idx sub = Inr ix"
  shows "pubkey (keys ix ! 1) = req"
  using createFulfillmentInstruction_keys [OF assms] by auto

text \<open>
  What \<open>submitFulfillment\<close> does to the state: it only consumes ticks and logs at most
  one transaction, and it logs one whenever it succeeds.
\<close>

lemma submitFulfillment_effect:
  assumes "submitFulfillment cfg env s req pr sd rid pool idx sub = (res, s')"
  shows "processedRequests s' = processedRequests s \<and> stats s' = stats s \<and>
     isRunning s' = isRunning s \<and> sleeps s' = sleeps s \<and>
     (sent s' = sent s \<and> res = Failure \<or>
      (\<exists>ix blockhash. createFulfillmentInstruction cfg env req pr sd rid pool idx sub = Inr ix \<and>
         sent s' = sent s @ [\<lparr> tx_instruction = ix, recentBlockhash = blockhash,
                                feePayer = oraclePublicKey cfg \<rparr>]))"
  using assms
  by (auto simp: submitFulfillment_def tick_def Let_def split: sum.splits option.splits)

lemma markProcessed_fields:
  "sent (markProcessed env s pk pr rq) = sent s \<and>
   isRunning (markProcessed env s pk pr rq) = isRunning s \<and>
   sleeps (markProcessed env s pk pr rq) = sleeps s \<and>
   errors (stats (markProcessed env s pk pr rq)) = errors (stats s) \<and>
   requestsFulfilled (stats (markProcessed env s pk pr rq)) = requestsFulfilled (stats s) \<and>
   requestsProcessed (stats (markProcessed env s pk pr rq)) = Suc (requestsProcessed (stats s)) \<and>
   ticks (markProcessed env s pk pr rq) = Suc (ticks s) \<and>
   processedRequests (markProcessed env s pk pr rq)
     = (processedRequests s)(pk \<mapsto> processedInfo (dateNow env (ticks s)) pr rq)"
  by (simp add: markProcessed_def tick_def)

text \<open>The paths through \<open>processRequestAccount\<close>.\<close>

lemma processRequestAccount_skip:
  assumes "processedRequests s (acct_pubkey account) \<noteq> None"
  shows "processRequestAccount cfg env s account = (Inr False, s)"
  using assms by (simp add: processRequestAccount_def)

lemma processRequestAccount_prove_fails:
  assumes "processedRequests s (acct_pubkey account) = None"
    and "slice_buf (acct_data account) 0 8 = REQUEST_DISCRIMINATOR"
    and "parseRequestData (acct_data account) = Inr rq"
    and "generateProof cfg env (ticks s) (rq_seed rq) = Inl e"
  shows "processRequestAccount cfg env s account = (Inl e, tick s)"
proof -
  have "8 \<le> length (acct_data account)"
    using assms(2) by (auto simp: slice_buf_def REQUEST_DISCRIMINATOR_def dest: arg_cong [where f = length])
  with assms show ?thesis
    by (simp add: processRequestAccount_def discriminator_check)
qed

lemma processRequestAccount_invalid:
  assumes "processedRequests s (acct_pubkey account) = None"
    and "slice_buf (acct_data account) 0 8 = REQUEST_DISCRIMINATOR"
    and "parseRequestData (acct_data account) = Inr rq"
    and "generateProof cfg env (ticks s) (rq_seed rq) = Inr pr"
    and "verifyProof cfg env (Suc (ticks s)) (vrf_proof pr) (vrf_output pr) (vrfPublicKey cfg)
           (rq_seed rq) = Inr False"
  shows "processRequestAccount cfg env s account = (Inr False, tick (tick s))"
proof -
  have "8 \<le> length (acct_data account)"
    using assms(2) by (auto simp: slice_buf_def REQUEST_DISCRIMINATOR_def dest: arg_cong [where f = length])
  with assms show ?thesis
    by (simp add: processRequestAccount_def discriminator_check tick_def)
qed

lemma processRequestAccount_valid:
  assumes "processedRequests s (acct_pubkey account) = None"
    and "slice_buf (acct_data account) 0 8 = REQUEST_DISCRIMINATOR"
    and "parseRequestData (acct_data account) = Inr rq"
    and "generateProof cfg env (ticks s) (rq_seed rq) = Inr pr"
    and "verifyProof cfg env (Suc (ticks s)) (vrf_proof pr) (vrf_output pr) (vrfPublicKey cfg)
           (rq_seed rq) = Inr True"
    and "submitFulfillment cfg env (markProcessed env (tick (tick s)) (acct_pubkey account) pr rq)
           (acct_pubkey account) pr (rq_seed rq) (rq_requestId rq) (rq_poolId rq)
           (rq_requestIndex rq) (rq_subscription rq) = (res, s4)"
  shows "processRequestAccount cfg env s account =
     (case res of Success signature \<Rightarrow> (Inr True, countFulfilled s4)
      | Failure \<Rightarrow> (Inr False, s4))"
proof -
  have "8 \<le> length (acct_data account)"
    using assms(2) by (auto simp: slice_buf_def REQUEST_DISCRIMINATOR_def dest: arg_cong [where f = length])
  with assms show ?thesis
    by (simp add: processRequestAccount_def discriminator_check tick_def
        split: fulfillment_result.splits)
qed

lemma verifyProof_returns: "\<exists>valid. verifyProof cfg env k prf out publicKey input = Inr valid"
  by (auto simp: verifyProof_def split: sum.splits)

text \<open>
  What \<open>processRequestAccount\<close> does to the state, on every path: it never touches the
  error counter, the flag or the sleeps; it writes at most the entry of the account's own
  address, and only where there was none; and it logs at most one transaction, built by
  \<open>createFulfillmentInstruction\<close> from the fields of the account, after writing the entry.
\<close>

lemma processRequestAccount_effect:
  assumes "processRequestAccount cfg env s account = (r, s')"
  shows "isRunning s' = isRunning s \<and> sleeps s' = sleeps s \<and>
     errors (stats s') = errors (stats s) \<and>
     (processedRequests s' = processedRequests s \<and> sent s' = sent s \<and> r \<noteq> Inr True \<or>
      (\<exists>rq pr now.
         processedRequests s (acct_pubkey account) = None \<and>
         parseRequestData (acct_data account) = Inr rq \<and>
         processedRequests s'
           = (processedRequests s)(acct_pubkey account \<mapsto> processedInfo now pr rq) \<and>
         (sent s' = sent s \<and> r = Inr False \<or>
          (\<exists>ix blockhash.
             createFulfillmentInstruction cfg env (acct_pubkey account) pr (rq_seed rq)
               (rq_requestId rq) (rq_poolId rq) (rq_requestIndex rq) (rq_subscription rq)
               = Inr ix \<and>
             sent s' = sent s @ [\<lparr> tx_instruction = ix, recentBlockhash = blockhash,
                                    feePayer = oraclePublicKey cfg \<rparr>]))))"
proof (cases "processedRequests s (acct_pubkey account) \<noteq> None \<or> length (acct_data account) < 8
              \<or> toHex (slice_buf (acct_data account) 0 8) \<noteq> REQUEST_DISCRIMINATOR_HEX")
  case True
  with assms have "r = Inr False \<and> s' = s"
    by (auto simp: processRequestAccount_def Let_def split: if_splits)
  then show ?thesis by simp
next
  case entered: False
  show ?thesis
  proof (cases "parseRequestData (acct_data account)")
    case (Inl e)
    with assms entered have "r = Inl e \<and> s' = s"
      by (auto simp: processRequestAccount_def Let_def split: if_splits)
    then show ?thesis by simp
  next
    case (Inr rq)
    note parsed = this
    show ?thesis
    proof (cases "generateProof cfg env (ticks s) (rq_seed rq)")
      case (Inl e)
      with assms entered parsed have "r = Inl e \<and> s' = tick s"
        by (auto simp: processRequestAccount_def Let_def split: if_splits)
      then show ?thesis by (simp add: tick_def)
    next
      case (Inr pr)
      note proved = this
      obtain valid where verified: "verifyProof cfg env (ticks (tick s)) (vrf_proof pr)
          (vrf_output pr) (vrfPublicKey cfg) (rq_seed rq) = Inr valid"
        using verifyProof_returns by blast
      show ?thesis
      proof (cases valid)
        case False
        with assms entered parsed proved verified have "r = Inr False \<and> s' = tick (tick s)"
          by (auto simp: processRequestAccount_def Let_def split: if_splits)
        then show ?thesis by (simp add: tick_def)
      next
        case True
        let ?s3 = "markProcessed env (tick (tick s)) (acct_pubkey account) pr rq"
        obtain res s4 where submitted:
          "submitFulfillment cfg env ?s3 (acct_pubkey account) pr (rq_seed rq) (rq_requestId rq)
             (rq_poolId rq) (rq_requestIndex rq) (rq_subscription rq) = (res, s4)"
          by (cases "submitFulfillment cfg env ?s3 (acct_pubkey account) pr (rq_seed rq)
             (rq_requestId rq) (rq_poolId rq) (rq_requestIndex rq) (rq_subscription rq)")
        from assms entered parsed proved verified True submitted
        have result: "(r, s') = (case res of Success signature \<Rightarrow> (Inr True, countFulfilled s4)
            | Failure \<Rightarrow> (Inr False, s4))"
          by (auto simp: processRequestAccount_def Let_def split: fulfillment_result.splits)
        note eff = submitFulfillment_effect [OF submitted]
        note mark = markProcessed_fields [of env "tick (tick s)" "acct_pubkey account" pr rq]
        have fresh: "processedRequests s (acct_pubkey account) = None"
          using entered by simp
        have entry: "processedRequests s' = (processedRequests s)(acct_pubkey account \<mapsto>
            processedInfo (dateNow env (ticks (tick (tick s)))) pr rq)"
          using result eff mark
          by (auto simp: countFulfilled_def tick_def split: fulfillment_result.splits)
        have other: "isRunning s' = isRunning s \<and> sleeps s' = sleeps s
            \<and> errors (stats s') = errors (stats s)"
          using result eff mark
          by (auto simp: countFulfilled_def tick_def split: fulfillment_result.splits)
        have log: "sent s' = sent s \<and> r = Inr False \<or>
          (\<exists>ix blockhash.
             createFulfillmentInstruction cfg env (acct_pubkey account) pr (rq_seed rq)
               (rq_requestId rq) (rq_poolId rq) (rq_requestIndex rq) (rq_subscription rq)
               = Inr ix \<and>
             sent s' = sent s @ [\<lparr> tx_instruction = ix, recentBlockhash = blockhash,
                                    feePayer = oraclePublicKey cfg \<rparr>])"
          using result eff mark
          by (auto simp: countFulfilled_def tick_def split: fulfillment_result.splits)
        from fresh parsed entry other log show ?thesis by blast
      qed
    qed
  qed
qed

section \<open>The sample run\<close>

lemma sample_info: "processedInfo 1002 sampleProof sampleRequest = sampleInfo"
  by (simp add: processedInfo_def sampleProof_def sampleRequest_def sampleInfo_def)

lemma sample_parsed: "parseRequestData (acct_data sampleAccount) = Inr sampleRequest"
  by (simp add: sampleAccount_def sample_request sampleRequest_def)

lemma sample_generate: "generateProof sampleConfig goodEnv k input = Inr sampleProof"
  by (simp add: generateProof_def goodEnv_def)

lemma sample_verify: "verifyProof sampleConfig goodEnv k prf out publicKey input = Inr True"
  by (simp add: verifyProof_def goodEnv_def)

lemma sample_encode:
  "encodeFulfillData [1, 2] [11, 12] (replicate 32 9) 7 261 =
     Inr ([235, 105, 140, 46, 40, 88, 117, 2] @ [2, 0, 0, 0] @ [1, 2] @ [2, 0, 0, 0] @ [11, 12]
          @ replicate 32 9 @ [7] @ [5, 1, 0, 0])"
proof -
  have two: "u32le (Suc (Suc 0)) = [2, 0, 0, 0]" by (simp add: u32le_def)
  have idx: "u32le 261 = [5, 1, 0, 0]" by (simp add: u32le_def)
  from encodeFulfillData_bytes [of "[1, 2]" "[11, 12]" "replicate 32 9" 7 261]
  show ?thesis by (simp add: two idx FULFILL_DISCRIMINATOR_def)
qed

lemma sample_create:
  "createFulfillmentInstruction sampleConfig goodEnv (replicate 32 5) sampleProof
     (replicate 32 2) (replicate 32 9) 7 261 (replicate 32 1) = Inr sampleInstruction"
proof -
  have p: "fromHex (vrf_proof sampleProof) = [1, 2]"
    by (simp add: sampleProof_def hexVal_def)
  have k: "fromHex (vrfPublicKey sampleConfig) = [11, 12]"
    by (simp add: sampleConfig_def hexVal_def)
  show ?thesis
    unfolding createFulfillmentInstruction_def Let_def p k sample_encode
    by (simp add: bindE_def goodEnv_def sampleConfig_def sampleInstruction_def)
qed

lemma sample_submit:
  "submitFulfillment sampleConfig goodEnv s (replicate 32 5) sampleProof
     (replicate 32 2) (replicate 32 9) 7 261 (replicate 32 1)
   = (Success ''signature'', s\<lparr> ticks := ticks s + 4, sent := sent s @ [sampleTransaction] \<rparr>)"
  unfolding submitFulfillment_def sample_create
  by (simp add: goodEnv_def sampleConfig_def sampleTransaction_def tick_def Let_def)

lemma sample_tagged: "slice_buf (acct_data sampleAccount) 0 8 = REQUEST_DISCRIMINATOR"
  by (simp add: sampleAccount_def sample_tag)

lemma sample_fresh: "processedRequests freshState (acct_pubkey sampleAccount) = None"
  by (simp add: freshState_def)

lemma sample_process:
  "processRequestAccount sampleConfig goodEnv freshState sampleAccount = (Inr True, sampleDone)"
proof -
  have marked: "markProcessed goodEnv (tick (tick freshState)) (acct_pubkey sampleAccount)
      sampleProof sampleRequest
    = freshState\<lparr> ticks := 3, processedRequests := [replicate 32 5 \<mapsto> sampleInfo],
        stats := \<lparr> startTime = 0, requestsProcessed = 1, requestsFulfilled = 0, errors = 0 \<rparr> \<rparr>"
    by (simp add: markProcessed_def tick_def freshState_def goodEnv_def sampleAccount_def
        sample_info)
  have fields: "rq_seed sampleRequest = replicate 32 2 \<and> rq_requestId sampleRequest = replicate 32 9
      \<and> rq_poolId sampleRequest = 7 \<and> rq_requestIndex sampleRequest = 261
      \<and> rq_subscription sampleRequest = replicate 32 1 \<and> acct_pubkey sampleAccount = replicate 32 5"
    by (simp add: sampleRequest_def sampleAccount_def)
  have submitted: "submitFulfillment sampleConfig goodEnv
      (markProcessed goodEnv (tick (tick freshState)) (acct_pubkey sampleAccount) sampleProof
         sampleRequest)
      (acct_pubkey sampleAccount) sampleProof (rq_seed sampleRequest) (rq_requestId sampleRequest)
      (rq_poolId sampleRequest) (rq_requestIndex sampleRequest) (rq_subscription sampleRequest)
    = (Success ''signature'',
       freshState\<lparr> ticks := 7, processedRequests := [replicate 32 5 \<mapsto> sampleInfo],
         stats := \<lparr> startTime = 0, requestsProcessed = 1, requestsFulfilled = 0, errors = 0 \<rparr>,
         sent := [sampleTransaction] \<rparr>)"
    unfolding marked using fields by (simp add: sample_submit freshState_def)
  from processRequestAccount_valid [OF sample_fresh sample_tagged sample_parsed
      sample_generate sample_verify submitted]
  show ?thesis
    by (simp add: countFulfilled_def freshState_def sampleDone_def)
qed

section \<open>The accounts of a fulfillment\<close>

text \<open>
  C8. Every transaction that \<open>processRequestAccount\<close> hands to the ledger has an
  instruction with exactly six accounts, in this order: the oracle (signer, writable), the
  request account (writable), the result address derived from the request address
  (writable), the request pool address derived from the subscription read from the
  request and its pool id (writable), the subscription (writable), and the system program
  (read-only).
\<close>

theorem fulfillment_accounts:
  assumes "processRequestAccount cfg env s account = (r, s')"
    and "sent s' \<noteq> sent s"
  shows "\<exists>tx rq requestPoolPDA vrfResultPDA.
     sent s' = sent s @ [tx] \<and>
     parseRequestData (acct_data account) = Inr rq \<and>
     findProgramAddress env
       [utf8 ''request_pool'', rq_subscription rq, [of_nat (rq_poolId rq)]] (vrfProgramId cfg)
       = Inr requestPoolPDA \<and>
     findProgramAddress env [utf8 ''vrf_result'', acct_pubkey account] (vrfProgramId cfg)
       = Inr vrfResultPDA \<and>
     keys (tx_instruction tx) =
       [\<lparr> pubkey = oraclePublicKey cfg, isSigner = True, isWritable = True \<rparr>,
        \<lparr> pubkey = acct_pubkey account, isSigner = False, isWritable = True \<rparr>,
        \<lparr> pubkey = vrfResultPDA, isSigner = False, isWritable = True \<rparr>,
        \<lparr> pubkey = requestPoolPDA, isSigner = False, isWritable = True \<rparr>,
        \<lparr> pubkey = rq_subscription rq, isSigner = False, isWritable = True \<rparr>,
        \<lparr> pubkey = systemProgramId cfg, isSigner = False, isWritable = False \<rparr>] \<and>
     length (keys (tx_instruction tx)) = 6"
proof -
  from processRequestAccount_effect [OF assms(1)] assms(2)
  obtain rq pr ix blockhash where
    parsed: "parseRequestData (acct_data account) = Inr rq" and
    created: "createFulfillmentInstruction cfg env (acct_pubkey account) pr (rq_seed rq)
               (rq_requestId rq) (rq_poolId rq) (rq_requestIndex rq) (rq_subscription rq)
               = Inr ix" and
    logged: "sent s' = sent s @ [\<lparr> tx_instruction = ix, recentBlockhash = blockhash,
                                    feePayer = oraclePublicKey cfg \<rparr>]"
    by auto
  from createFulfillmentInstruction_keys [OF created] parsed logged
  show ?thesis by fastforce
qed

theorem fulfillment_accounts_witness:
  "processRequestAccount sampleConfig goodEnv freshState sampleAccount = (Inr True, sampleDone) \<and>
   sent sampleDone \<noteq> sent freshState \<and>
   (\<exists>tx. sent sampleDone = sent freshState @ [tx] \<and>
      map pubkey (keys (tx_instruction tx)) =
        [replicate 32 4, replicate 32 5, utf8 ''vrf_result'' @ replicate 32 5,
         utf8 ''request_pool'' @ replicate 32 1 @ [7], replicate 32 1, replicate 32 0])"
proof -
  have differs: "sent sampleDone \<noteq> sent freshState"
    by (simp add: sampleDone_def freshState_def)
  from fulfillment_accounts [OF sample_process differs]
  obtain tx rq requestPoolPDA vrfResultPDA where
    one: "sent sampleDone = sent freshState @ [tx]" and
    rq: "parseRequestData (acct_data sampleAccount) = Inr rq" and
    pool: "findProgramAddress goodEnv
       [utf8 ''request_pool'', rq_subscription rq, [of_nat (rq_poolId rq)]]
       (vrfProgramId sampleConfig) = Inr requestPoolPDA" and
    result: "findProgramAddress goodEnv [utf8 ''vrf_result'', acct_pubkey sampleAccount]
       (vrfProgramId sampleConfig) = Inr vrfResultPDA" and
    six: "keys (tx_instruction tx) =
       [\<lparr> pubkey = oraclePublicKey sampleConfig, isSigner = True, isWritable = True \<rparr>,
        \<lparr> pubkey = acct_pubkey sampleAccount, isSigner = False, isWritable = True \<rparr>,
        \<lparr> pubkey = vrfResultPDA, isSigner = False, isWritable = True \<rparr>,
        \<lparr> pubkey = requestPoolPDA, isSigner = False, isWritable = True \<rparr>,
        \<lparr> pubkey = rq_subscription rq, isSigner = False, isWritable = True \<rparr>,
        \<lparr> pubkey = systemProgramId sampleConfig, isSigner = False, isWritable = False \<rparr>]"
    by blast
  from rq have "rq = sampleRequest"
    by (simp add: sample_parsed)
  with pool result six
  have "map pubkey (keys (tx_instruction tx)) =
        [replicate 32 4, replicate 32 5, utf8 ''vrf_result'' @ replicate 32 5,
         utf8 ''request_pool'' @ replicate 32 1 @ [7], replicate 32 1, replicate 32 0]"
    by (auto simp: goodEnv_def sampleConfig_def sampleAccount_def sampleRequest_def)
  with one have "\<exists>tx. sent sampleDone = sent freshState @ [tx] \<and>
      map pubkey (keys (tx_instruction tx)) =
        [replicate 32 4, replicate 32 5, utf8 ''vrf_result'' @ replicate 32 5,
         utf8 ''request_pool'' @ replicate 32 1 @ [7], replicate 32 1, replicate 32 0]"
    by (intro exI [of _ tx] conjI)
  with sample_process differs show ?thesis
    by (intro conjI)
qed

section \<open>A processed request is not submitted again\<close>

lemma isRequestPending_other:
  assumes "acct_pubkey a \<noteq> address"
  shows "processedRequests (snd (isRequestPending env s a)) address = processedRequests s address"
  using assms
  by (auto simp: isRequestPending_def tick_def Let_def split: option.splits)

lemma isRequestPending_log:
  "sent (snd (isRequestPending env s a)) = sent s \<and>
   stats (snd (isRequestPending env s a)) = stats s \<and>
   isRunning (snd (isRequestPending env s a)) = isRunning s \<and>
   sleeps (snd (isRequestPending env s a)) = sleeps s"
  by (auto simp: isRequestPending_def tick_def Let_def split: option.splits)

lemma isRequestPending_recent:
  assumes "processedRequests s (acct_pubkey a) = Some info"
    and "dateNow env (ticks s) - timestamp info < 10 * 60 * 1000"
  shows "isRequestPending env s a = (False, tick s)"
  using assms by (simp add: isRequestPending_def)

text \<open>
  A scan changes nothing but ticks and stale entries; an entry that stays within the
  window during the scan is kept, and no account of its address is returned.
\<close>

lemma scanAccounts_log:
  "sent (snd (scanAccounts env s accounts)) = sent s \<and>
   stats (snd (scanAccounts env s accounts)) = stats s \<and>
   isRunning (snd (scanAccounts env s accounts)) = isRunning s \<and>
   sleeps (snd (scanAccounts env s accounts)) = sleeps s"
proof (induction accounts arbitrary: s)
  case Nil
  show ?case by simp
next
  case (Cons a rest)
  from Cons [of s] Cons [of "snd (isRequestPending env s a)"] isRequestPending_log [of env s a]
  show ?case
    by (auto simp: Let_def split: prod.splits)
qed

lemma scanAccounts_recent:
  assumes "processedRequests s address = Some info"
    and "\<forall>k. dateNow env k - timestamp info < 10 * 60 * 1000"
  shows "processedRequests (snd (scanAccounts env s accounts)) address = Some info \<and>
     (\<forall>a \<in> set (fst (scanAccounts env s accounts)). acct_pubkey a \<noteq> address)"
  using assms(1)
proof (induction accounts arbitrary: s)
  case Nil
  then show ?case by simp
next
  case (Cons a rest)
  let ?s = "snd (isRequestPending env s a)"
  have kept: "processedRequests ?s address = Some info"
  proof (cases "acct_pubkey a = address")
    case True
    with Cons.prems assms(2) isRequestPending_recent [of s a info env] show ?thesis
      by (simp add: tick_def)
  next
    case False
    with Cons.prems isRequestPending_other [of a address env s] show ?thesis by simp
  qed
  have skipped: "acct_pubkey a = address \<Longrightarrow> \<not> fst (isRequestPending env s a)"
    using Cons.prems assms(2) isRequestPending_recent [of s a info env] by simp
  from Cons.IH [OF Cons.prems] Cons.IH [OF kept] skipped
  show ?case
    by (auto simp: Let_def split: prod.splits)
qed

lemma submissionsFor_append:
  "sent s' = sent s @ [tx] \<Longrightarrow>
     submissionsFor address s' =
       submissionsFor address s + (if pubkey (keys (tx_instruction tx) ! 1) = address then 1 else 0)"
  by (simp add: submissionsFor_def)

lemma submissionsFor_same: "sent s' = sent s \<Longrightarrow> submissionsFor address s' = submissionsFor address s"
  by (simp add: submissionsFor_def)

text \<open>Processing an account of another address leaves the address alone.\<close>

lemma processRequestAccount_other:
  assumes "processRequestAccount cfg env s a = (r, s')" and "acct_pubkey a \<noteq> address"
  shows "submissionsFor address s' = submissionsFor address s \<and>
     processedRequests s' address = processedRequests s address"
proof -
  note eff = processRequestAccount_effect [OF assms(1)]
  have entry: "processedRequests s' address = processedRequests s address"
    using eff assms(2) by auto
  have "sent s' = sent s \<or>
    (\<exists>tx. sent s' = sent s @ [tx] \<and> pubkey (keys (tx_instruction tx) ! 1) = acct_pubkey a)"
    using eff createFulfillmentInstruction_request by fastforce
  then have "submissionsFor address s' = submissionsFor address s"
    using assms(2) submissionsFor_append [of s' s _ address] submissionsFor_same [of s' s address]
    by auto
  with entry show ?thesis by simp
qed

lemma processAccounts_other:
  assumes "\<forall>a \<in> set accounts. acct_pubkey a \<noteq> address"
  shows "submissionsFor address (snd (processAccounts cfg env s accounts)) = submissionsFor address s \<and>
     processedRequests (snd (processAccounts cfg env s accounts)) address
       = processedRequests s address"
  using assms
proof (induction accounts arbitrary: s)
  case Nil
  show ?case by simp
next
  case (Cons a rest)
  obtain r s' where step: "processRequestAccount cfg env s a = (r, s')"
    by (cases "processRequestAccount cfg env s a")
  from Cons.prems have other: "acct_pubkey a \<noteq> address" and rest: "\<forall>a \<in> set rest. acct_pubkey a \<noteq> address"
    by auto
  note one = processRequestAccount_other [OF step other]
  have slept: "submissionsFor address (sleep 1000 s') = submissionsFor address s'
      \<and> processedRequests (sleep 1000 s') = processedRequests s'"
    by (simp add: submissionsFor_def sleep_def)
  have counted: "submissionsFor address (countError s') = submissionsFor address s'
      \<and> processedRequests (countError s') = processedRequests s'"
    by (simp add: submissionsFor_def countError_def)
  from Cons.IH [OF rest, of s'] Cons.IH [OF rest, of "sleep 1000 s'"]
    Cons.IH [OF rest, of "countError s'"] one slept counted step
  show ?case
    by (auto split: prod.splits sum.splits bool.splits)
qed

lemma monitorAndProcess_recent:
  assumes "processedRequests s address = Some info"
    and "\<forall>k. dateNow env k - timestamp info < 10 * 60 * 1000"
  shows "submissionsFor address (snd (monitorAndProcess cfg env s)) = submissionsFor address s \<and>
     processedRequests (snd (monitorAndProcess cfg env s)) address = Some info"
proof (cases "getProgramAccounts env (ticks s)")
  case (Inl e)
  then have "snd (monitorAndProcess cfg env s) = tick s"
    by (simp add: monitorAndProcess_def getPendingRequestAccounts_def)
  with assms(1) show ?thesis
    by (simp add: tick_def submissionsFor_def)
next
  case (Inr accounts)
  let ?scan = "scanAccounts env (tick s) accounts"
  have start: "processedRequests (tick s) address = Some info"
    using assms(1) by (simp add: tick_def)
  note scanned = scanAccounts_recent [OF start assms(2), of accounts]
  have log: "submissionsFor address (snd ?scan) = submissionsFor address s"
    using scanAccounts_log [of env "tick s" accounts] by (simp add: submissionsFor_def tick_def)
  from scanned have others: "\<forall>a \<in> set (fst ?scan). acct_pubkey a \<noteq> address"
    by simp
  note processed = processAccounts_other [OF others, of cfg env "snd ?scan"]
  have "snd (monitorAndProcess cfg env s) = snd ?scan
      \<or> snd (monitorAndProcess cfg env s) = snd (processAccounts cfg env (snd ?scan) (fst ?scan))"
    using Inr
    by (auto simp: monitorAndProcess_def getPendingRequestAccounts_def split: prod.splits)
  with scanned log processed show ?thesis by auto
qed

lemma loopBody_recent:
  assumes "processedRequests s address = Some info"
    and "\<forall>k. dateNow env k - timestamp info < 10 * 60 * 1000"
  shows "submissionsFor address (loopBody cfg env s) = submissionsFor address s \<and>
     processedRequests (loopBody cfg env s) address = Some info"
proof -
  let ?s = "snd (monitorAndProcess cfg env s)"
  have "loopBody cfg env s = sleep (POLLING_INTERVAL cfg) ?s
      \<or> loopBody cfg env s = sleep 5000 (countError ?s)"
    by (auto simp: loopBody_def split: prod.splits sum.splits)
  with monitorAndProcess_recent [OF assms, of cfg] show ?thesis
    by (auto simp: sleep_def countError_def submissionsFor_def)
qed

lemma mainLoop_recent:
  assumes "processedRequests s address = Some info"
    and "\<forall>k. dateNow env k - timestamp info < 10 * 60 * 1000"
  shows "submissionsFor address (mainLoop n cfg env s) = submissionsFor address s"
  using assms(1)
proof (induction n arbitrary: s)
  case 0
  show ?case by simp
next
  case (Suc n)
  from loopBody_recent [OF Suc.prems assms(2), of cfg]
  have kept: "processedRequests (loopBody cfg env s) address = Some info"
    and same: "submissionsFor address (loopBody cfg env s) = submissionsFor address s"
    by simp_all
  from Suc.IH [OF kept] same show ?case by simp
qed

text \<open>
  C1. When \<open>processRequestAccount\<close> has processed a request (it returned true), exactly
  one transaction for the request's address has been handed to the ledger, and as long as
  the clock stays within ten minutes of the entry's timestamp: \<open>isRequestPending\<close> finds the
  entry and returns false, no scan returns an account of that address,
  \<open>processRequestAccount\<close> itself refuses the address since it is in the map, and a further
  cycle, or any number of turns of the polling loop, submits nothing more for it: the
  total stays one.
\<close>

theorem no_second_submission:
  assumes "processRequestAccount cfg env s account = (Inr True, s1)"
    and "\<forall>k. dateNow env' k - timestamp (the (processedRequests s1 (acct_pubkey account)))
           < 10 * 60 * 1000"
  shows "submissionsFor (acct_pubkey account) s1 = submissionsFor (acct_pubkey account) s + 1 \<and>
     fst (isRequestPending env' s1 account) = False \<and>
     (\<forall>accounts. \<forall>a \<in> set (fst (scanAccounts env' s1 accounts)).
        acct_pubkey a \<noteq> acct_pubkey account) \<and>
     processRequestAccount cfg' env' s1 account = (Inr False, s1) \<and>
     submissionsFor (acct_pubkey account) (snd (monitorAndProcess cfg' env' s1))
       = submissionsFor (acct_pubkey account) s + 1 \<and>
     (\<forall>n. submissionsFor (acct_pubkey account) (mainLoop n cfg' env' s1)
        = submissionsFor (acct_pubkey account) s + 1)"
proof -
  let ?pk = "acct_pubkey account"
  from processRequestAccount_effect [OF assms(1)]
  obtain rq pr now ix blockhash where
    entry: "processedRequests s1 = (processedRequests s)(?pk \<mapsto> processedInfo now pr rq)" and
    created: "createFulfillmentInstruction cfg env ?pk pr (rq_seed rq)
               (rq_requestId rq) (rq_poolId rq) (rq_requestIndex rq) (rq_subscription rq)
               = Inr ix" and
    logged: "sent s1 = sent s @ [\<lparr> tx_instruction = ix, recentBlockhash = blockhash,
                                    feePayer = oraclePublicKey cfg \<rparr>]"
    by auto
  let ?info = "processedInfo now pr rq"
  have marked: "processedRequests s1 ?pk = Some ?info"
    using entry by simp
  have window: "\<forall>k. dateNow env' k - timestamp ?info < 10 * 60 * 1000"
    using assms(2) marked by simp
  have once: "submissionsFor ?pk s1 = submissionsFor ?pk s + 1"
    using submissionsFor_append [OF logged, of ?pk] createFulfillmentInstruction_request [OF created]
    by simp
  have excluded: "fst (isRequestPending env' s1 account) = False"
    using isRequestPending_recent [OF marked, of env'] window by simp
  have scan: "\<forall>accounts. \<forall>a \<in> set (fst (scanAccounts env' s1 accounts)). acct_pubkey a \<noteq> ?pk"
    using scanAccounts_recent [OF marked window] by blast
  have refused: "processRequestAccount cfg' env' s1 account = (Inr False, s1)"
    using processRequestAccount_skip [of s1 account] marked by simp
  have cycle: "submissionsFor ?pk (snd (monitorAndProcess cfg' env' s1)) = submissionsFor ?pk s + 1"
    using monitorAndProcess_recent [OF marked window, of cfg'] once by simp
  have turns: "\<forall>n. submissionsFor ?pk (mainLoop n cfg' env' s1) = submissionsFor ?pk s + 1"
    using mainLoop_recent [OF marked window, of _ cfg'] once by simp
  from once excluded scan refused cycle turns show ?thesis by blast
qed

theorem no_second_submission_witness:
  "processRequestAccount sampleConfig goodEnv freshState sampleAccount = (Inr True, sampleDone) \<and>
   (\<forall>k. dateNow (goodEnv\<lparr>dateNow := \<lambda>k. 61002\<rparr>) k
          - timestamp (the (processedRequests sampleDone (acct_pubkey sampleAccount)))
        < 10 * 60 * 1000) \<and>
   submissionsFor (acct_pubkey sampleAccount) sampleDone = 1 \<and>
   fst (isRequestPending (goodEnv\<lparr>dateNow := \<lambda>k. 61002\<rparr>) sampleDone sampleAccount) = False \<and>
   submissionsFor (acct_pubkey sampleAccount)
     (snd (monitorAndProcess sampleConfig (goodEnv\<lparr>dateNow := \<lambda>k. 61002\<rparr>) sampleDone)) = 1"
proof -
  let ?later = "goodEnv\<lparr>dateNow := \<lambda>k. 61002\<rparr>"
  have window: "\<forall>k. dateNow ?later k
      - timestamp (the (processedRequests sampleDone (acct_pubkey sampleAccount))) < 10 * 60 * 1000"
    by (simp add: sampleDone_def sampleAccount_def sampleInfo_def)
  have none: "submissionsFor (acct_pubkey sampleAccount) freshState = 0"
    by (simp add: submissionsFor_def freshState_def)
  from no_second_submission [OF sample_process window, of sampleConfig] none
  have "submissionsFor (acct_pubkey sampleAccount) sampleDone = 1 \<and>
     fst (isRequestPending ?later sampleDone sampleAccount) = False \<and>
     submissionsFor (acct_pubkey sampleAccount)
       (snd (monitorAndProcess sampleConfig ?later sampleDone)) = 1"
    by simp
  with sample_process window show ?thesis by (intro conjI) simp_all
qed

section \<open>A proof that does not verify\<close>

lemma processAccounts_single:
  "processAccounts cfg env s [account] =
     (case processRequestAccount cfg env s account of
        (Inr True, s') \<Rightarrow> (1, sleep 1000 s')
      | (Inr False, s') \<Rightarrow> (0, s')
      | (Inl e, s') \<Rightarrow> (0, countError s'))"
  by (simp split: prod.splits sum.splits bool.splits)

lemma invalid_generate:
  "generateProof sampleConfig invalidProofEnv (Suc 0) input = Inr sampleProof"
  by (simp add: generateProof_def invalidProofEnv_def goodEnv_def)

lemma invalid_verify:
  "verifyProof sampleConfig invalidProofEnv (Suc (Suc 0)) prf out publicKey input = Inr False"
  by (simp add: verifyProof_def invalidProofEnv_def goodEnv_def)

lemma invalid_scan:
  "getPendingRequestAccounts invalidProofEnv freshState = (Inr [sampleAccount], tick freshState)"
proof -
  have fresh: "processedRequests (tick freshState) (acct_pubkey sampleAccount) = None"
    by (simp add: tick_def freshState_def)
  have pending: "parseRequestStatus (acct_data sampleAccount) = Inr True"
    by (simp add: sampleAccount_def sample_status)
  have listed: "getProgramAccounts invalidProofEnv (ticks freshState) = Inr [sampleAccount]"
    by (simp add: invalidProofEnv_def goodEnv_def)
  show ?thesis
    unfolding getPendingRequestAccounts_def listed
    using scanAccounts_single [OF fresh, of invalidProofEnv] pending by simp
qed

text \<open>
  C3, as stated, fails in the error counter: in a cycle over the sample account in which
  the verifier rejects the proof, nothing is submitted and no entry is written, but the
  cycle ends with the error counter where it was, at 0.
\<close>

theorem invalid_proof_not_counted:
  "verifyProof sampleConfig invalidProofEnv 2 (vrf_proof sampleProof) (vrf_output sampleProof)
     (vrfPublicKey sampleConfig) (rq_seed sampleRequest) = Inr False \<and>
   monitorAndProcess sampleConfig invalidProofEnv freshState
     = (Inr (), freshState\<lparr> ticks := 3 \<rparr>) \<and>
   errors (stats (freshState\<lparr> ticks := 3 \<rparr>)) = 0"
proof -
  have rejected: "verifyProof sampleConfig invalidProofEnv 2 (vrf_proof sampleProof)
     (vrf_output sampleProof) (vrfPublicKey sampleConfig) (rq_seed sampleRequest) = Inr False"
    using invalid_verify by (simp add: numeral_2_eq_2)
  have fresh: "processedRequests (tick freshState) (acct_pubkey sampleAccount) = None"
    by (simp add: tick_def freshState_def)
  have at: "ticks (tick freshState) = Suc 0"
    by (simp add: tick_def freshState_def)
  have "processRequestAccount sampleConfig invalidProofEnv (tick freshState) sampleAccount
      = (Inr False, tick (tick (tick freshState)))"
    by (rule processRequestAccount_invalid [OF fresh sample_tagged sample_parsed])
       (simp_all add: at invalid_generate invalid_verify)
  then have "processAccounts sampleConfig invalidProofEnv (tick freshState) [sampleAccount]
      = (0, freshState\<lparr> ticks := 3 \<rparr>)"
    by (simp add: tick_def freshState_def)
  then have cycle: "monitorAndProcess sampleConfig invalidProofEnv freshState
      = (Inr (), freshState\<lparr> ticks := 3 \<rparr>)"
    by (simp add: monitorAndProcess_def invalid_scan)
  have "errors (stats (freshState\<lparr> ticks := 3 \<rparr>)) = 0"
    by (simp add: freshState_def)
  with rejected cycle show ?thesis by (intro conjI)
qed

text \<open>
  C3, amended. For a request that is not in \<open>processedRequests\<close> and whose fields parse,
  when the proof is generated and \<open>verifyProof\<close> returns false: \<open>processRequestAccount\<close>
  returns false, no transaction is handed to the ledger, no entry is written for the
  address, and the counters, the error counter among them, are left as they were, also
  by the loop over the pending accounts.
\<close>

theorem invalid_proof_not_submitted:
  assumes "processedRequests s (acct_pubkey account) = None"
    and "slice_buf (acct_data account) 0 8 = REQUEST_DISCRIMINATOR"
    and "parseRequestData (acct_data account) = Inr rq"
    and "generateProof cfg env (ticks s) (rq_seed rq) = Inr pr"
    and "verifyProof cfg env (Suc (ticks s)) (vrf_proof pr) (vrf_output pr) (vrfPublicKey cfg)
           (rq_seed rq) = Inr False"
  shows "\<exists>s'. processRequestAccount cfg env s account = (Inr False, s') \<and>
     processAccounts cfg env s [account] = (0, s') \<and>
     sent s' = sent s \<and> processedRequests s' = processedRequests s \<and> stats s' = stats s"
proof -
  have "processRequestAccount cfg env s account = (Inr False, tick (tick s))"
    using processRequestAccount_invalid [OF assms] .
  then show ?thesis
    by (simp add: processAccounts_single tick_def)
qed

theorem invalid_proof_not_submitted_witness:
  "processedRequests (tick freshState) (acct_pubkey sampleAccount) = None \<and>
   verifyProof sampleConfig invalidProofEnv (Suc (ticks (tick freshState))) (vrf_proof sampleProof)
     (vrf_output sampleProof) (vrfPublicKey sampleConfig) (rq_seed sampleRequest) = Inr False \<and>
   (\<exists>s'. processRequestAccount sampleConfig invalidProofEnv (tick freshState) sampleAccount
            = (Inr False, s') \<and>
      sent s' = [] \<and> processedRequests s' (acct_pubkey sampleAccount) = None \<and>
      errors (stats s') = 0)"
proof -
  have fresh: "processedRequests (tick freshState) (acct_pubkey sampleAccount) = None"
    by (simp add: tick_def freshState_def)
  have at: "ticks (tick freshState) = Suc 0"
    by (simp add: tick_def freshState_def)
  have generated: "generateProof sampleConfig invalidProofEnv (ticks (tick freshState))
      (rq_seed sampleRequest) = Inr sampleProof"
    by (simp add: at invalid_generate)
  have rejected: "verifyProof sampleConfig invalidProofEnv (Suc (ticks (tick freshState)))
      (vrf_proof sampleProof) (vrf_output sampleProof) (vrfPublicKey sampleConfig)
      (rq_seed sampleRequest) = Inr False"
    by (simp add: at invalid_verify)
  from invalid_proof_not_submitted [OF fresh sample_tagged sample_parsed generated rejected]
  obtain s' where
    "processRequestAccount sampleConfig invalidProofEnv (tick freshState) sampleAccount
       = (Inr False, s')"
    "sent s' = sent (tick freshState)"
    "processedRequests s' = processedRequests (tick freshState)"
    "stats s' = stats (tick freshState)"
    by blast
  then have "\<exists>s'. processRequestAccount sampleConfig invalidProofEnv (tick freshState) sampleAccount
            = (Inr False, s') \<and>
      sent s' = [] \<and> processedRequests s' (acct_pubkey sampleAccount) = None \<and>
      errors (stats s') = 0"
    by (intro exI [of _ s']) (simp add: tick_def freshState_def)
  with fresh rejected show ?thesis by (intro conjI)
qed

section \<open>When the entry is written\<close>

lemma failing_create:
  "createFulfillmentInstruction sampleConfig submissionFailsEnv (replicate 32 5) sampleProof
     (replicate 32 2) (replicate 32 9) 7 261 (replicate 32 1) = Inr sampleInstruction"
proof -
  have "createFulfillmentInstruction sampleConfig submissionFailsEnv (replicate 32 5) sampleProof
     (replicate 32 2) (replicate 32 9) 7 261 (replicate 32 1)
    = createFulfillmentInstruction sampleConfig goodEnv (replicate 32 5) sampleProof
     (replicate 32 2) (replicate 32 9) 7 261 (replicate 32 1)"
    by (simp add: createFulfillmentInstruction_def submissionFailsEnv_def)
  then show ?thesis by (simp add: sample_create)
qed

lemma failing_submit:
  "submitFulfillment sampleConfig submissionFailsEnv s (replicate 32 5) sampleProof
     (replicate 32 2) (replicate 32 9) 7 261 (replicate 32 1)
   = (Failure, s\<lparr> ticks := ticks s + 2, sent := sent s @ [sampleTransaction] \<rparr>)"
  unfolding submitFulfillment_def failing_create
  by (simp add: submissionFailsEnv_def goodEnv_def sampleConfig_def sampleTransaction_def
      tick_def Let_def)

lemma failing_generate: "generateProof sampleConfig submissionFailsEnv k input = Inr sampleProof"
  by (simp add: generateProof_def submissionFailsEnv_def goodEnv_def)

lemma failing_verify:
  "verifyProof sampleConfig submissionFailsEnv k prf out publicKey input = Inr True"
  by (simp add: verifyProof_def submissionFailsEnv_def goodEnv_def)

lemma failing_submitted:
  "submitFulfillment sampleConfig submissionFailsEnv
      (markProcessed submissionFailsEnv (tick (tick freshState)) (acct_pubkey sampleAccount)
         sampleProof sampleRequest)
      (acct_pubkey sampleAccount) sampleProof (rq_seed sampleRequest) (rq_requestId sampleRequest)
      (rq_poolId sampleRequest) (rq_requestIndex sampleRequest) (rq_subscription sampleRequest)
    = (Failure, failedState)"
proof -
  have marked: "markProcessed submissionFailsEnv (tick (tick freshState))
      (acct_pubkey sampleAccount) sampleProof sampleRequest
    = freshState\<lparr> ticks := 3, processedRequests := [replicate 32 5 \<mapsto> sampleInfo],
        stats := \<lparr> startTime = 0, requestsProcessed = 1, requestsFulfilled = 0, errors = 0 \<rparr> \<rparr>"
    by (simp add: markProcessed_def tick_def freshState_def submissionFailsEnv_def goodEnv_def
        sampleAccount_def sample_info)
  have fields: "rq_seed sampleRequest = replicate 32 2 \<and> rq_requestId sampleRequest = replicate 32 9
      \<and> rq_poolId sampleRequest = 7 \<and> rq_requestIndex sampleRequest = 261
      \<and> rq_subscription sampleRequest = replicate 32 1 \<and> acct_pubkey sampleAccount = replicate 32 5"
    by (simp add: sampleRequest_def sampleAccount_def)
  show ?thesis
    unfolding marked using fields by (simp add: failing_submit freshState_def failedState_def)
qed

lemma failing_process:
  "processRequestAccount sampleConfig submissionFailsEnv freshState sampleAccount
     = (Inr False, failedState)"
  using processRequestAccount_valid [OF sample_fresh sample_tagged sample_parsed
      failing_generate failing_verify failing_submitted]
  by simp

text \<open>
  C2, as stated, fails: when the ledger rejects the transaction of the sample request,
  the entry written before the submission is still in \<open>processedRequests\<close>, the error
  counter is where it was, and the next scan finds the entry and skips the request.
\<close>

theorem failed_submission_leaves_entry:
  "processRequestAccount sampleConfig submissionFailsEnv freshState sampleAccount
     = (Inr False, failedState) \<and>
   processedRequests failedState (acct_pubkey sampleAccount) = Some sampleInfo \<and>
   errors (stats failedState) = 0 \<and>
   isRequestPending goodEnv failedState sampleAccount = (False, tick failedState)"
proof -
  have entry: "processedRequests failedState (acct_pubkey sampleAccount) = Some sampleInfo"
    by (simp add: failedState_def sampleAccount_def)
  have count: "errors (stats failedState) = 0"
    by (simp add: failedState_def)
  have recent: "dateNow goodEnv (ticks failedState) - timestamp sampleInfo < 10 * 60 * 1000"
    by (simp add: goodEnv_def failedState_def sampleInfo_def)
  from failing_process entry count isRequestPending_recent [OF entry recent]
  show ?thesis by (intro conjI)
qed

text \<open>
  C2, amended. For a request that is not in \<open>processedRequests\<close> and whose fields parse:
  when the generation of the proof fails, no entry is written, the error is thrown to the
  loop, which increments the error counter, and the address stays out of the map; when the
  proof does not verify, no entry is written either; when the proof verifies, the entry
  is written with the time read then, before the submission, and it is there whether the
  submission succeeds or fails: \<open>requestsProcessed\<close> is incremented, \<open>requestsFulfilled\<close> only
  when the submission succeeds, the error counter not at all, and \<open>isRequestPending\<close>
  returns false for the request while the clock is within ten minutes of that time.
\<close>

theorem entry_written_before_submission:
  assumes "processedRequests s (acct_pubkey account) = None"
    and "slice_buf (acct_data account) 0 8 = REQUEST_DISCRIMINATOR"
    and "parseRequestData (acct_data account) = Inr rq"
  shows
    "(\<forall>e. generateProof cfg env (ticks s) (rq_seed rq) = Inl e \<longrightarrow>
        processRequestAccount cfg env s account = (Inl e, tick s) \<and>
        processAccounts cfg env s [account] = (0, countError (tick s)) \<and>
        processedRequests (countError (tick s)) = processedRequests s \<and>
        errors (stats (countError (tick s))) = Suc (errors (stats s))) \<and>
     (\<forall>pr. generateProof cfg env (ticks s) (rq_seed rq) = Inr pr \<and>
        verifyProof cfg env (Suc (ticks s)) (vrf_proof pr) (vrf_output pr) (vrfPublicKey cfg)
          (rq_seed rq) = Inr False \<longrightarrow>
        processRequestAccount cfg env s account = (Inr False, tick (tick s)) \<and>
        processedRequests (tick (tick s)) = processedRequests s) \<and>
     (\<forall>pr. generateProof cfg env (ticks s) (rq_seed rq) = Inr pr \<and>
        verifyProof cfg env (Suc (ticks s)) (vrf_proof pr) (vrf_output pr) (vrfPublicKey cfg)
          (rq_seed rq) = Inr True \<longrightarrow>
        (\<exists>fulfilled s'.
           processRequestAccount cfg env s account = (Inr fulfilled, s') \<and>
           (fulfilled \<longleftrightarrow>
              fst (submitFulfillment cfg env
                     (markProcessed env (tick (tick s)) (acct_pubkey account) pr rq)
                     (acct_pubkey account) pr (rq_seed rq) (rq_requestId rq) (rq_poolId rq)
                     (rq_requestIndex rq) (rq_subscription rq)) \<noteq> Failure) \<and>
           processedRequests s' = (processedRequests s)(acct_pubkey account \<mapsto>
              processedInfo (dateNow env (Suc (Suc (ticks s)))) pr rq) \<and>
           requestsProcessed (stats s') = Suc (requestsProcessed (stats s)) \<and>
           requestsFulfilled (stats s') =
             (if fulfilled then Suc (requestsFulfilled (stats s)) else requestsFulfilled (stats s)) \<and>
           errors (stats s') = errors (stats s) \<and>
           (\<forall>env'. dateNow env' (ticks s') - dateNow env (Suc (Suc (ticks s))) < 10 * 60 * 1000
              \<longrightarrow> fst (isRequestPending env' s' account) = False)))"
proof (intro conjI allI impI)
  fix e
  assume failed: "generateProof cfg env (ticks s) (rq_seed rq) = Inl e"
  show thrown: "processRequestAccount cfg env s account = (Inl e, tick s)"
    using processRequestAccount_prove_fails [OF assms failed] .
  show "processAccounts cfg env s [account] = (0, countError (tick s))"
    by (simp add: processAccounts_single thrown)
  show "processedRequests (countError (tick s)) = processedRequests s"
    by (simp add: countError_def tick_def)
  show "errors (stats (countError (tick s))) = Suc (errors (stats s))"
    by (simp add: countError_def tick_def)
next
  fix pr
  assume "generateProof cfg env (ticks s) (rq_seed rq) = Inr pr \<and>
        verifyProof cfg env (Suc (ticks s)) (vrf_proof pr) (vrf_output pr) (vrfPublicKey cfg)
          (rq_seed rq) = Inr False"
  then show "processRequestAccount cfg env s account = (Inr False, tick (tick s))"
    using processRequestAccount_invalid [OF assms] by blast
  show "processedRequests (tick (tick s)) = processedRequests s"
    by (simp add: tick_def)
next
  fix pr
  assume verified: "generateProof cfg env (ticks s) (rq_seed rq) = Inr pr \<and>
        verifyProof cfg env (Suc (ticks s)) (vrf_proof pr) (vrf_output pr) (vrfPublicKey cfg)
          (rq_seed rq) = Inr True"
  let ?s3 = "markProcessed env (tick (tick s)) (acct_pubkey account) pr rq"
  let ?submit = "submitFulfillment cfg env ?s3 (acct_pubkey account) pr (rq_seed rq)
      (rq_requestId rq) (rq_poolId rq) (rq_requestIndex rq) (rq_subscription rq)"
  let ?info = "processedInfo (dateNow env (Suc (Suc (ticks s)))) pr rq"
  obtain res s4 where submitted: "?submit = (res, s4)"
    by (cases ?submit)
  note eff = submitFulfillment_effect [OF submitted]
  note mark = markProcessed_fields [of env "tick (tick s)" "acct_pubkey account" pr rq]
  let ?fulfilled = "res \<noteq> Failure"
  let ?s' = "if ?fulfilled then countFulfilled s4 else s4"
  have result: "processRequestAccount cfg env s account = (Inr ?fulfilled, ?s')"
    using processRequestAccount_valid [OF assms conjunct1 [OF verified] conjunct2 [OF verified]
        submitted]
    by (cases res) simp_all
  have entry: "processedRequests ?s' = (processedRequests s)(acct_pubkey account \<mapsto> ?info)"
    using eff mark by (simp add: countFulfilled_def tick_def)
  have processed: "requestsProcessed (stats ?s') = Suc (requestsProcessed (stats s))"
    using eff mark by (simp add: countFulfilled_def tick_def)
  have fulfilled: "requestsFulfilled (stats ?s') =
      (if ?fulfilled then Suc (requestsFulfilled (stats s)) else requestsFulfilled (stats s))"
    using eff mark by (simp add: countFulfilled_def tick_def)
  have counted: "errors (stats ?s') = errors (stats s)"
    using eff mark by (simp add: countFulfilled_def tick_def)
  have skipped: "\<forall>env'. dateNow env' (ticks ?s') - dateNow env (Suc (Suc (ticks s))) < 10 * 60 * 1000
      \<longrightarrow> fst (isRequestPending env' ?s' account) = False"
  proof (intro allI impI)
    fix env' :: env
    assume "dateNow env' (ticks ?s') - dateNow env (Suc (Suc (ticks s))) < 10 * 60 * 1000"
    then have "dateNow env' (ticks ?s') - timestamp ?info < 10 * 60 * 1000"
      by (simp add: processedInfo_def)
    moreover have "processedRequests ?s' (acct_pubkey account) = Some ?info"
      using entry by simp
    ultimately show "fst (isRequestPending env' ?s' account) = False"
      using isRequestPending_recent [of ?s' account ?info env'] by simp
  qed
  have which: "?fulfilled \<longleftrightarrow> fst ?submit \<noteq> Failure"
    using submitted by simp
  from result which entry processed fulfilled counted skipped
  show "\<exists>fulfilled s'.
           processRequestAccount cfg env s account = (Inr fulfilled, s') \<and>
           (fulfilled \<longleftrightarrow> fst ?submit \<noteq> Failure) \<and>
           processedRequests s' = (processedRequests s)(acct_pubkey account \<mapsto> ?info) \<and>
           requestsProcessed (stats s') = Suc (requestsProcessed (stats s)) \<and>
           requestsFulfilled (stats s') =
             (if fulfilled then Suc (requestsFulfilled (stats s)) else requestsFulfilled (stats s)) \<and>
           errors (stats s') = errors (stats s) \<and>
           (\<forall>env'. dateNow env' (ticks s') - dateNow env (Suc (Suc (ticks s))) < 10 * 60 * 1000
              \<longrightarrow> fst (isRequestPending env' s' account) = False)"
    by (intro exI [of _ ?fulfilled] exI [of _ ?s'] conjI)
qed

theorem entry_written_before_submission_witness:
  "(generateProof sampleConfig (goodEnv\<lparr>execAsync := \<lambda>k cmd. Inl Timeout\<rparr>) (ticks freshState)
      (rq_seed sampleRequest) = Inl (ExecError Timeout) \<and>
    processAccounts sampleConfig (goodEnv\<lparr>execAsync := \<lambda>k cmd. Inl Timeout\<rparr>) freshState
      [sampleAccount] = (0, countError (tick freshState)) \<and>
    errors (stats (countError (tick freshState))) = Suc (errors (stats freshState))) \<and>
   (verifyProof sampleConfig invalidProofEnv (Suc (ticks (tick freshState))) (vrf_proof sampleProof)
      (vrf_output sampleProof) (vrfPublicKey sampleConfig) (rq_seed sampleRequest) = Inr False \<and>
    processRequestAccount sampleConfig invalidProofEnv (tick freshState) sampleAccount
      = (Inr False, tick (tick (tick freshState)))) \<and>
   (verifyProof sampleConfig submissionFailsEnv (Suc (ticks freshState)) (vrf_proof sampleProof)
      (vrf_output sampleProof) (vrfPublicKey sampleConfig) (rq_seed sampleRequest) = Inr True \<and>
    (\<exists>fulfilled s'.
       processRequestAccount sampleConfig submissionFailsEnv freshState sampleAccount
         = (Inr fulfilled, s') \<and>
       processedRequests s' = (processedRequests freshState)(acct_pubkey sampleAccount \<mapsto>
          processedInfo (dateNow submissionFailsEnv (Suc (Suc (ticks freshState))))
            sampleProof sampleRequest) \<and>
       errors (stats s') = errors (stats freshState)))"
proof -
  let ?down = "goodEnv\<lparr>execAsync := \<lambda>k cmd. Inl Timeout\<rparr>"
  have timeout: "generateProof sampleConfig ?down (ticks freshState) (rq_seed sampleRequest)
      = Inl (ExecError Timeout)"
    by (simp add: generateProof_def)
  from entry_written_before_submission [OF sample_fresh sample_tagged sample_parsed,
      of sampleConfig ?down] timeout
  have first: "processAccounts sampleConfig ?down freshState [sampleAccount]
        = (0, countError (tick freshState)) \<and>
      errors (stats (countError (tick freshState))) = Suc (errors (stats freshState))"
    by blast
  have fresh: "processedRequests (tick freshState) (acct_pubkey sampleAccount) = None"
    by (simp add: tick_def freshState_def)
  have at: "ticks (tick freshState) = Suc 0"
    by (simp add: tick_def freshState_def)
  have generated: "generateProof sampleConfig invalidProofEnv (ticks (tick freshState))
      (rq_seed sampleRequest) = Inr sampleProof"
    by (simp add: at invalid_generate)
  have rejected: "verifyProof sampleConfig invalidProofEnv (Suc (ticks (tick freshState)))
      (vrf_proof sampleProof) (vrf_output sampleProof) (vrfPublicKey sampleConfig)
      (rq_seed sampleRequest) = Inr False"
    by (simp add: at invalid_verify)
  from entry_written_before_submission [OF fresh sample_tagged sample_parsed,
      of sampleConfig invalidProofEnv] generated rejected
  have second: "processRequestAccount sampleConfig invalidProofEnv (tick freshState) sampleAccount
      = (Inr False, tick (tick (tick freshState)))"
    by blast
  have accepted: "verifyProof sampleConfig submissionFailsEnv (Suc (ticks freshState))
      (vrf_proof sampleProof) (vrf_output sampleProof) (vrfPublicKey sampleConfig)
      (rq_seed sampleRequest) = Inr True"
    by (rule failing_verify)
  from entry_written_before_submission [OF sample_fresh sample_tagged sample_parsed,
      of sampleConfig submissionFailsEnv] failing_generate accepted
  obtain fulfilled s' where
    "processRequestAccount sampleConfig submissionFailsEnv freshState sampleAccount
         = (Inr fulfilled, s')"
    "processedRequests s' = (processedRequests freshState)(acct_pubkey sampleAccount \<mapsto>
          processedInfo (dateNow submissionFailsEnv (Suc (Suc (ticks freshState))))
            sampleProof sampleRequest)"
    "errors (stats s') = errors (stats freshState)"
    by blast
  then have third: "\<exists>fulfilled s'.
       processRequestAccount sampleConfig submissionFailsEnv freshState sampleAccount
         = (Inr fulfilled, s') \<and>
       processedRequests s' = (processedRequests freshState)(acct_pubkey sampleAccount \<mapsto>
          processedInfo (dateNow submissionFailsEnv (Suc (Suc (ticks freshState))))
            sampleProof sampleRequest) \<and>
       errors (stats s') = errors (stats freshState)"
    by (intro exI [of _ fulfilled] exI [of _ s'] conjI)
  from timeout first rejected second accepted third show ?thesis
    by (intro conjI) simp_all
qed

section \<open>The polling loop\<close>

text \<open>
  No path through a cycle clears the running flag, every turn of the loop ends with one
  sleep, and an error thrown by the cycle is counted and followed by a sleep of 5000 ms:
  the loop goes on while the flag is set, whatever the cycles throw.
\<close>

lemma processAccounts_running:
  "isRunning (snd (processAccounts cfg env s accounts)) = isRunning s"
proof (induction accounts arbitrary: s)
  case Nil
  show ?case by simp
next
  case (Cons a rest)
  obtain r s' where step: "processRequestAccount cfg env s a = (r, s')"
    by (cases "processRequestAccount cfg env s a")
  from processRequestAccount_effect [OF step] have same: "isRunning s' = isRunning s"
    by simp
  from Cons [of s'] Cons [of "sleep 1000 s'"] Cons [of "countError s'"] same step
  show ?case
    by (auto simp: sleep_def countError_def split: prod.splits sum.splits bool.splits)
qed

lemma monitorAndProcess_running:
  "isRunning (snd (monitorAndProcess cfg env s)) = isRunning s"
proof (cases "getProgramAccounts env (ticks s)")
  case (Inl e)
  then show ?thesis
    by (simp add: monitorAndProcess_def getPendingRequestAccounts_def tick_def)
next
  case (Inr accounts)
  let ?scan = "scanAccounts env (tick s) accounts"
  have scanned: "isRunning (snd ?scan) = isRunning s"
    using scanAccounts_log [of env "tick s" accounts] by (simp add: tick_def)
  have "snd (monitorAndProcess cfg env s) = snd ?scan
      \<or> snd (monitorAndProcess cfg env s) = snd (processAccounts cfg env (snd ?scan) (fst ?scan))"
    using Inr
    by (auto simp: monitorAndProcess_def getPendingRequestAccounts_def split: prod.splits)
  with scanned processAccounts_running [of cfg env "snd ?scan" "fst ?scan"] show ?thesis
    by auto
qed

lemma loopBody_cases:
  "loopBody cfg env s =
     (case fst (monitorAndProcess cfg env s) of
        Inr u \<Rightarrow> sleep (POLLING_INTERVAL cfg) (snd (monitorAndProcess cfg env s))
      | Inl e \<Rightarrow> sleep 5000 (countError (snd (monitorAndProcess cfg env s))))"
  by (simp add: loopBody_def split: prod.splits sum.splits)

lemma loopBody_running: "isRunning (loopBody cfg env s) = isRunning s"
  using monitorAndProcess_running [of cfg env s]
  by (simp add: loopBody_cases sleep_def countError_def split: sum.splits)

lemma loopBody_backoff:
  assumes "fst (monitorAndProcess cfg env s) = Inl e"
  shows "errors (stats (loopBody cfg env s))
           = Suc (errors (stats (snd (monitorAndProcess cfg env s)))) \<and>
         sleeps (loopBody cfg env s) = sleeps (snd (monitorAndProcess cfg env s)) @ [5000]"
  using assms by (simp add: loopBody_cases sleep_def countError_def)

lemma mainLoop_running:
  "isRunning s \<Longrightarrow> isRunning (mainLoop n cfg env s)"
proof (induction n arbitrary: s)
  case 0
  then show ?case by simp
next
  case (Suc n)
  from Suc.prems have "isRunning (loopBody cfg env s)"
    by (simp add: loopBody_running)
  with Suc.IH Suc.prems show ?case by simp
qed

lemma mainLoop_turn:
  "isRunning s \<Longrightarrow> mainLoop (Suc n) cfg env s = loopBody cfg env (mainLoop n cfg env s)"
proof (induction n arbitrary: s)
  case 0
  then show ?case by simp
next
  case (Suc n)
  from Suc.prems have "isRunning (loopBody cfg env s)"
    by (simp add: loopBody_running)
  from Suc.IH [OF this] Suc.prems show ?case by simp
qed

text \<open>
  C9. The loop of \<open>start\<close> sleeps a fixed 5000 ms after a cycle has thrown (the source says
  "Wait longer on error"), and the polling interval comes from the environment: with
  \<open>POLLING_INTERVAL=10000\<close> and a failing enumeration of the accounts, the turn counts
  the error and keeps the flag, but its sleep of 5000 ms is shorter than the polling
  interval of 10000 ms.
\<close>

theorem backoff_not_longer:
  "POLLING_INTERVAL slowConfig = 10000 \<and>
   monitorAndProcess slowConfig rpcDownEnv freshState = (Inl RpcError, tick freshState) \<and>
   sleeps (loopBody slowConfig rpcDownEnv freshState) = [5000] \<and>
   errors (stats (loopBody slowConfig rpcDownEnv freshState)) = 1 \<and>
   isRunning (loopBody slowConfig rpcDownEnv freshState) = True \<and>
   sleeps (loopBody slowConfig goodEnv sampleDone) = [10000]"
proof -
  have interval: "POLLING_INTERVAL slowConfig = 10000"
    by (simp add: slowConfig_def)
  have thrown: "monitorAndProcess slowConfig rpcDownEnv freshState = (Inl RpcError, tick freshState)"
    by (simp add: monitorAndProcess_def getPendingRequestAccounts_def rpcDownEnv_def)
  have turn: "loopBody slowConfig rpcDownEnv freshState = sleep 5000 (countError (tick freshState))"
    by (simp add: loopBody_def thrown)
  have slept: "sleeps (loopBody slowConfig rpcDownEnv freshState) = [5000]"
    unfolding turn by (simp add: sleep_def countError_def tick_def freshState_def)
  have counted: "errors (stats (loopBody slowConfig rpcDownEnv freshState)) = 1"
    unfolding turn by (simp add: sleep_def countError_def tick_def freshState_def)
  have running: "isRunning (loopBody slowConfig rpcDownEnv freshState) = True"
    unfolding turn by (simp add: sleep_def countError_def tick_def freshState_def)
  have entry: "processedRequests (tick sampleDone) (acct_pubkey sampleAccount) = Some sampleInfo"
    by (simp add: tick_def sampleDone_def sampleAccount_def)
  have recent: "dateNow goodEnv (ticks (tick sampleDone)) - timestamp sampleInfo < 10 * 60 * 1000"
    by (simp add: goodEnv_def tick_def sampleDone_def sampleInfo_def)
  have skipped: "scanAccounts goodEnv (tick sampleDone) [sampleAccount] = ([], tick (tick sampleDone))"
    using isRequestPending_recent [OF entry recent]
    by (simp add: sampleAccount_def sample_length sample_tag toHex_disc)
  have listed: "getProgramAccounts goodEnv (ticks sampleDone) = Inr [sampleAccount]"
    by (simp add: goodEnv_def)
  have quiet: "monitorAndProcess slowConfig goodEnv sampleDone = (Inr (), tick (tick sampleDone))"
    unfolding monitorAndProcess_def getPendingRequestAccounts_def listed
    by (simp add: skipped del: scanAccounts.simps)
  have normal: "sleeps (loopBody slowConfig goodEnv sampleDone) = [10000]"
    unfolding loopBody_def quiet
    by (simp add: sleep_def tick_def sampleDone_def slowConfig_def)
  from interval thrown slept counted running normal show ?thesis
    by (intro conjI)
qed

end
